theory Spec2Isabelle
  imports
    Complex_Main
    "HOL-Library.AList"
    "HOL-Library.Char_ord"
    "HOL-Library.List_Lexorder"
    "HOL-Library.Product_Lexorder"
begin

section \<open>Airline cargo network optimizer: the model of \<open>app.py\<close>\<close>

text \<open>
  The program reads two sheets (direct and indirect markets), builds a registry of OD
  paths and a leg-capacity dictionary, hands a linear program to PuLP, and turns the
  variable values the solver leaves into an OD summary, a leg breakdown with priority
  labels and ranks, and a total profit.

  Conventions of the embedding.
  \<^item> Python floats are modelled as \<^typ>\<open>real\<close>: \<open>min\<close>, \<open>max\<close>, comparison and the
    products and sums are those of the reals; rounding error of the machine arithmetic
    is outside the model.
  \<^item> A Python \<open>dict\<close> is an association list with distinct keys in insertion order;
    \<open>d[k] = v\<close> is \<^const>\<open>AList.update\<close> (an existing key keeps its place, a new one is
    appended) and \<open>d[k]\<close> is \<^const>\<open>map_of\<close>, with \<open>None\<close> for \<open>KeyError\<close>.
  \<^item> Every \<open>raise\<close> is a value \<open>Inl e\<close> of a sum type; the bare \<open>except: continue\<close> of
    the build loops and the outer \<open>except Exception\<close> are the places that inspect it.
  \<^item> The LP solver itself (\<open>prob.solve()\<close>, PuLP with its default backend) is not code of
    this program: what it leaves behind (a status and a value per variable) is an
    argument of the post-processing functions.
\<close>

subsection \<open>Cells, rows and Python errors\<close>

datatype py_error = KeyError | ValueError | TypeError

text \<open>A cell as \<open>xls.parse\<close> delivers it: a number, a text, or blank (\<open>NaN\<close>).\<close>

datatype raw_cell = RNum real | RStr string | RBlank

text \<open>
  A cell after \<open>.replace("-", 0).fillna(0)\<close> (lines 15-16): a number or a text; no
  blank is left, so \<open>pd.notna\<close> holds of every cell the loops read.
\<close>

datatype cell = Num real | Str string

fun clean_cell :: "raw_cell \<Rightarrow> cell" where
  "clean_cell (RNum r) = Num r"
| "clean_cell (RStr s) = (if s = ''-'' then Num 0 else Str s)"
| "clean_cell RBlank = Num 0"

text \<open>A row of a sheet: column label to cell; a label that is no column gives \<open>None\<close>.\<close>

type_synonym raw_row = "string \<Rightarrow> raw_cell option"
type_synonym row = "string \<Rightarrow> cell option"

definition clean_row :: "raw_row \<Rightarrow> row" where
  "clean_row r = (\<lambda>k. map_option clean_cell (r k))"

definition bind_err :: "py_error + 'a \<Rightarrow> ('a \<Rightarrow> py_error + 'b) \<Rightarrow> py_error + 'b" where
  "bind_err m f = (case m of Inl e \<Rightarrow> Inl e | Inr v \<Rightarrow> f v)"

text \<open>\<open>row[k]\<close>: \<open>KeyError\<close> when the sheet has no such column.\<close>

definition row_get :: "row \<Rightarrow> string \<Rightarrow> py_error + cell" where
  "row_get r k = (case r k of None \<Rightarrow> Inl KeyError | Some c \<Rightarrow> Inr c)"

text \<open>
  \<open>float(c)\<close>. On a number it is the number. On a text Python parses a numeric literal or
  raises \<open>ValueError\<close>; the parser is the argument \<open>sf\<close> (\<open>None\<close> where Python raises).
\<close>

definition py_float :: "(string \<Rightarrow> real option) \<Rightarrow> cell \<Rightarrow> py_error + real" where
  "py_float sf c =
     (case c of Num r \<Rightarrow> Inr r
      | Str s \<Rightarrow> (case sf s of None \<Rightarrow> Inl ValueError | Some r \<Rightarrow> Inr r))"

definition notna :: "cell \<Rightarrow> bool" where
  "notna c = True"

text \<open>\<open>float(row[k]) if pd.notna(row[k]) else 0\<close>.\<close>

definition float_or_zero :: "(string \<Rightarrow> real option) \<Rightarrow> row \<Rightarrow> string \<Rightarrow> py_error + real" where
  "float_or_zero sf r k =
     bind_err (row_get r k) (\<lambda>c. if notna c then py_float sf c else Inr 0)"

subsection \<open>Path registry and leg capacities (lines 19-45)\<close>

record od_path =
  legs :: "cell list"
  cm :: real
  max_allocable :: real

record model =
  all_od_paths :: "(cell \<times> od_path) list"
  leg_capacities :: "(cell \<times> real) list"

text \<open>Lines 24-27: everything a direct row reads before it writes.\<close>

definition direct_fields ::
  "(string \<Rightarrow> real option) \<Rightarrow> row \<Rightarrow> py_error + (cell \<times> real \<times> real \<times> real)" where
  "direct_fields sf r =
     bind_err (row_get r ''O-D'') (\<lambda>od.
     bind_err (bind_err (row_get r ''CM'') (py_float sf)) (\<lambda>c.
     bind_err (float_or_zero sf r ''AI Share'') (\<lambda>market_share.
     bind_err (float_or_zero sf r ''AI Cap'') (\<lambda>capacity.
       Inr (od, c, market_share, capacity)))))"

text \<open>Lines 22-31: one pass of the direct loop; an exception leaves the model as it is.\<close>

definition direct_step :: "(string \<Rightarrow> real option) \<Rightarrow> row \<Rightarrow> model \<Rightarrow> model" where
  "direct_step sf r m =
     (case direct_fields sf r of
        Inl e \<Rightarrow> m
      | Inr (od, c, market_share, capacity) \<Rightarrow>
          m\<lparr>all_od_paths :=
               AList.update od
                 \<lparr>legs = [od], cm = c, max_allocable = min market_share capacity\<rparr>
                 (all_od_paths m),
            leg_capacities := AList.update od capacity (leg_capacities m)\<rparr>)"

text \<open>Lines 35-38: what an indirect row reads before it writes the path.\<close>

definition indirect_fields ::
  "(string \<Rightarrow> real option) \<Rightarrow> row \<Rightarrow> py_error + (cell \<times> od_path)" where
  "indirect_fields sf r =
     bind_err (row_get r ''O-D'') (\<lambda>od.
     bind_err (bind_err (row_get r ''CM'') (py_float sf)) (\<lambda>c.
     bind_err (float_or_zero sf r ''AI Share'') (\<lambda>ma.
     bind_err (row_get r ''1st Leg O-D'') (\<lambda>l1.
     bind_err (row_get r ''2nd Leg O-D'') (\<lambda>l2.
       Inr (od, \<lparr>legs = [l1, l2], cm = c, max_allocable = ma\<rparr>))))))"

text \<open>\<open>str(n)\<close> of a natural number, for the f-string of line 41.\<close>

fun str_nat :: "nat \<Rightarrow> string" where
  "str_nat n =
     (if n < 10 then [''0123456789'' ! n]
      else str_nat (n div 10) @ [''0123456789'' ! (n mod 10)])"

declare str_nat.simps [simp del]

text \<open>Line 41: \<open>f'{i+1}st Leg AI Cap'\<close>: the suffix is \<open>st\<close> for every \<open>i\<close>.\<close>

definition cap_col :: "nat \<Rightarrow> string" where
  "cap_col i = str_nat (i + 1) @ ''st Leg AI Cap''"

text \<open>
  Line 43: \<open>min(leg_capacities.get(leg, float('inf')), leg_cap)\<close>; a leg with no entry
  yet takes \<open>leg_cap\<close>, which is \<open>min(inf, leg_cap)\<close>.
\<close>

definition min_cap :: "real option \<Rightarrow> real \<Rightarrow> real" where
  "min_cap cur leg_cap = (case cur of None \<Rightarrow> leg_cap | Some v \<Rightarrow> min v leg_cap)"

text \<open>
  Lines 40-43: the loop over \<open>enumerate(legs)\<close>, from index \<open>i\<close>. An exception at a leg
  ends the row; the capacities written for the legs before it stay.
\<close>

fun leg_loop ::
  "(string \<Rightarrow> real option) \<Rightarrow> row \<Rightarrow> nat \<Rightarrow> cell list \<Rightarrow> (cell \<times> real) list \<Rightarrow> (cell \<times> real) list" where
  "leg_loop sf r i [] caps = caps"
| "leg_loop sf r i (leg # ls) caps =
     (case float_or_zero sf r (cap_col i) of
        Inl e \<Rightarrow> caps
      | Inr leg_cap \<Rightarrow>
          leg_loop sf r (i + 1) ls
            (AList.update leg (min_cap (map_of caps leg) leg_cap) caps))"

text \<open>Lines 33-45: one pass of the indirect loop.\<close>

definition indirect_step :: "(string \<Rightarrow> real option) \<Rightarrow> row \<Rightarrow> model \<Rightarrow> model" where
  "indirect_step sf r m =
     (case indirect_fields sf r of
        Inl e \<Rightarrow> m
      | Inr (od, p) \<Rightarrow>
          m\<lparr>all_od_paths := AList.update od p (all_od_paths m),
            leg_capacities := leg_loop sf r 0 (legs p) (leg_capacities m)\<rparr>)"

text \<open>Lines 15-45: both sheets are cleaned, then the direct rows and the indirect rows run.\<close>

definition build :: "(string \<Rightarrow> real option) \<Rightarrow> raw_row list \<Rightarrow> raw_row list \<Rightarrow> model" where
  "build sf direct_routes indirect_routes =
     fold (indirect_step sf) (map clean_row indirect_routes)
       (fold (direct_step sf) (map clean_row direct_routes)
          \<lparr>all_od_paths = [], leg_capacities = []\<rparr>)"

subsection \<open>The linear program handed to the solver (lines 48-54)\<close>

text \<open>
  One continuous variable per key of the registry with lower bound 0 (line 49); the
  objective \<open>TotalProfit\<close> (line 50); one constraint per entry of \<open>leg_capacities\<close>
  summing the variables of the paths whose leg list holds that leg (lines 51-52); one
  upper bound per path (lines 53-54). An assignment gives each variable, by its key, a
  value.
\<close>

definition objective :: "(cell \<times> od_path) list \<Rightarrow> (cell \<Rightarrow> real) \<Rightarrow> real" where
  "objective paths x = sum_list (map (\<lambda>kp. x (fst kp) * cm (snd kp)) paths)"

definition leg_load :: "(cell \<times> od_path) list \<Rightarrow> (cell \<Rightarrow> real) \<Rightarrow> cell \<Rightarrow> real" where
  "leg_load paths x leg =
     sum_list (map (\<lambda>kp. x (fst kp)) (filter (\<lambda>kp. leg \<in> set (legs (snd kp))) paths))"

definition lp_feasible :: "model \<Rightarrow> (cell \<Rightarrow> real) \<Rightarrow> bool" where
  "lp_feasible m x \<longleftrightarrow>
     list_all (\<lambda>kp. 0 \<le> x (fst kp)) (all_od_paths m) \<and>
     list_all (\<lambda>lc. leg_load (all_od_paths m) x (fst lc) \<le> snd lc) (leg_capacities m) \<and>
     list_all (\<lambda>kp. x (fst kp) \<le> max_allocable (snd kp)) (all_od_paths m)"

text \<open>
  What \<open>prob.solve()\<close> leaves: the status PuLP records and, in each variable object, a
  \<open>varValue\<close> (a float or \<open>None\<close>). The program never reads the status.
\<close>

datatype lp_status = Optimal | Not_Solved | Infeasible | Unbounded | Undefined

record solution =
  status :: lp_status
  varValue :: "cell \<Rightarrow> real option"

subsection \<open>Variable names and the keys recovered from them (lines 49 and 62)\<close>

text \<open>
  \<open>LpVariable.dicts("CargoTons", keys)\<close> names the variable of key \<open>k\<close>
  \<open>"CargoTons_" + str(k)\<close>, and PuLP's name setter replaces each of the characters
  \<open>-+[] ->/\<close> by an underscore. \<open>str\<close> of a text key is the text; \<open>str\<close> of a number
  is the argument \<open>ns\<close>.
\<close>

definition sanitize :: "string \<Rightarrow> string" where
  "sanitize s = map (\<lambda>c. if c \<in> set ''-+[] ->/'' then CHR ''_'' else c) s"

definition key_str :: "(real \<Rightarrow> string) \<Rightarrow> cell \<Rightarrow> string" where
  "key_str ns k = (case k of Str s \<Rightarrow> s | Num r \<Rightarrow> ns r)"

definition var_name :: "(real \<Rightarrow> string) \<Rightarrow> cell \<Rightarrow> string" where
  "var_name ns k = sanitize (''CargoTons_'' @ key_str ns k)"

text \<open>
  \<open>s.replace(old, new)\<close> of Python for a non-empty \<open>old\<close>: every occurrence, found from
  the left and not overlapping, is replaced.
\<close>

fun replace_all :: "string \<Rightarrow> string \<Rightarrow> string \<Rightarrow> string" where
  "replace_all old new [] = []"
| "replace_all old new (c # cs) =
     (if take (length old) (c # cs) = old
      then new @ replace_all old new (drop (length old - 1) cs)
      else c # replace_all old new cs)"

text \<open>For the empty \<open>old\<close> Python puts \<open>new\<close> before every character and at the end.\<close>

definition py_replace :: "string \<Rightarrow> string \<Rightarrow> string \<Rightarrow> string" where
  "py_replace old new s =
     (if old = [] then new @ concat (map (\<lambda>c. c # new) s) else replace_all old new s)"

text \<open>Line 62: \<open>v.name.replace("CargoTons_", "").replace("_", "-")\<close>.\<close>

definition recover :: "string \<Rightarrow> string" where
  "recover name = py_replace ''_'' ''-'' (py_replace ''CargoTons_'' [] name)"

text \<open>
  \<open>prob.variables()\<close>: the variables sorted by name (a stable sort), each with the key
  whose \<open>varValue\<close> it holds.
\<close>

definition variables :: "(real \<Rightarrow> string) \<Rightarrow> (cell \<times> od_path) list \<Rightarrow> (string \<times> cell) list" where
  "variables ns paths = sort_key fst (map (\<lambda>kp. (var_name ns (fst kp), fst kp)) paths)"

subsection \<open>OD summary (lines 59-67)\<close>

text \<open>\<open>round(x, 2)\<close>: to the nearest hundredth, a tie to the even one.\<close>

definition round_half_even :: "real \<Rightarrow> int" where
  "round_half_even y =
     (let f = \<lfloor>y\<rfloor>; d = y - of_int f
      in if d < 1 / 2 then f else if 1 / 2 < d then f + 1 else if even f then f else f + 1)"

definition round2 :: "real \<Rightarrow> real" where
  "round2 x = of_int (round_half_even (x * 100)) / 100"

record od_row =
  od_pair :: string
  cargo_tonnage :: real
  cm_per_ton :: real
  total_profit :: real

text \<open>
  The loop of lines 60-66. \<open>v.varValue > 0\<close> raises \<open>TypeError\<close> on \<open>None\<close>;
  \<open>all_od_paths[od]\<close> raises \<open>KeyError\<close> when the recovered text is no key.
\<close>

fun summary_loop ::
  "(cell \<times> od_path) list \<Rightarrow> solution \<Rightarrow> (string \<times> cell) list \<Rightarrow> py_error + od_row list" where
  "summary_loop paths sol [] = Inr []"
| "summary_loop paths sol (v # vs) =
     (case varValue sol (snd v) of
        None \<Rightarrow> Inl TypeError
      | Some tons \<Rightarrow>
          if 0 < tons then
            (case map_of paths (Str (recover (fst v))) of
               None \<Rightarrow> Inl KeyError
             | Some props \<Rightarrow>
                 bind_err (summary_loop paths sol vs) (\<lambda>rows.
                   Inr (\<lparr>od_pair = recover (fst v), cargo_tonnage = round2 tons,
                         cm_per_ton = cm props,
                         total_profit = round2 (tons * cm props)\<rparr> # rows)))
          else summary_loop paths sol vs)"

subsection \<open>Leg breakdown (lines 69-86)\<close>

record leg_record =
  flight_leg :: cell
  od_contributor :: string
  od_cm :: real
  leg_tonnage :: real
  profit_on_leg :: real
  priority_type :: string
  fill_priority_rank :: "nat option"

text \<open>
  Lines 71-80, with the two columns lines 85-86 add (\<open>"Fills Remaining"\<close> and \<open>None\<close>):
  one record per leg of each row of the OD summary; the tonnage is the rounded one.
\<close>

definition leg_record_of :: "od_row \<Rightarrow> cell \<Rightarrow> leg_record" where
  "leg_record_of r leg =
     \<lparr>flight_leg = leg, od_contributor = od_pair r, od_cm = cm_per_ton r,
      leg_tonnage = cargo_tonnage r, profit_on_leg = cargo_tonnage r * cm_per_ton r,
      priority_type = ''Fills Remaining'', fill_priority_rank = None\<rparr>"

fun leg_records :: "(cell \<times> od_path) list \<Rightarrow> od_row list \<Rightarrow> py_error + leg_record list" where
  "leg_records paths [] = Inr []"
| "leg_records paths (r # rs) =
     (case map_of paths (Str (od_pair r)) of
        None \<Rightarrow> Inl KeyError
      | Some props \<Rightarrow>
          bind_err (leg_records paths rs) (\<lambda>recs.
            Inr (map (leg_record_of r) (legs props) @ recs)))"

subsection \<open>Priority classification (lines 88-119)\<close>

text \<open>The rows of a group of \<open>groupby("Flight Leg")\<close>, by their index, in table order.\<close>

definition group_index :: "cell \<Rightarrow> leg_record list \<Rightarrow> nat list" where
  "group_index leg df = filter (\<lambda>i. flight_leg (df ! i) = leg) [0..<length df]"

text \<open>Line 99 and line 106: \<open>len(all_od_paths[od]["legs"]) == 1\<close>.\<close>

definition is_direct :: "(cell \<times> od_path) list \<Rightarrow> string \<Rightarrow> py_error + bool" where
  "is_direct paths od =
     (case map_of paths (Str od) of
        None \<Rightarrow> Inl KeyError
      | Some props \<Rightarrow> Inr (length (legs props) = 1))"

text \<open>Line 99: the column \<open>is_direct\<close> of the group, row by row.\<close>

fun is_direct_column ::
  "(cell \<times> od_path) list \<Rightarrow> leg_record list \<Rightarrow> nat list \<Rightarrow> py_error + bool list" where
  "is_direct_column paths df [] = Inr []"
| "is_direct_column paths df (i # idxs) =
     bind_err (is_direct paths (od_contributor (df ! i))) (\<lambda>d.
     bind_err (is_direct_column paths df idxs) (\<lambda>ds. Inr (d # ds)))"

text \<open>
  Line 100: \<open>sort_values(by=[CM, is_direct], ascending=[False, False])\<close>, a stable sort
  on both columns descending: larger CM first, and \<open>True\<close> before \<open>False\<close> among equal
  CM. The result is the index of the sorted group.
\<close>

definition sort_group :: "leg_record list \<Rightarrow> nat list \<Rightarrow> bool list \<Rightarrow> nat list" where
  "sort_group df idxs ds =
     map fst (sort_key (\<lambda>p. (- od_cm (df ! fst p), \<not> snd p)) (zip idxs ds))"

text \<open>Lines 109-116.\<close>

definition label_of :: "bool \<Rightarrow> bool \<Rightarrow> string" where
  "label_of is_highest direct =
     (if is_highest \<and> direct then ''Highest CM - Direct''
      else if is_highest \<and> \<not> direct then ''Highest CM - Indirect''
      else if direct then ''Direct - Lower CM''
      else ''Indirect - Lower CM'')"

text \<open>Lines 102-119: the loop over \<open>enumerate(sorted_group.index, start=rank)\<close>.\<close>

fun rank_loop ::
  "(cell \<times> od_path) list \<Rightarrow> real \<Rightarrow> nat \<Rightarrow> nat list \<Rightarrow> leg_record list \<Rightarrow> py_error + leg_record list" where
  "rank_loop paths top_cm rank [] df = Inr df"
| "rank_loop paths top_cm rank (idx # idxs) df =
     bind_err (is_direct paths (od_contributor (df ! idx))) (\<lambda>direct.
       rank_loop paths top_cm (rank + 1) idxs
         (df[idx := (df ! idx)\<lparr>priority_type := label_of (od_cm (df ! idx) = top_cm) direct,
                               fill_priority_rank := Some rank\<rparr>]))"

text \<open>Lines 89-119: the body of the loop over the groups, for the group of \<open>leg\<close>.\<close>

definition classify_group ::
  "(cell \<times> od_path) list \<Rightarrow> cell \<Rightarrow> leg_record list \<Rightarrow> py_error + leg_record list" where
  "classify_group paths leg df =
     (let idxs = group_index leg df in
      if length idxs = 1 then
        Inr (df[hd idxs := (df ! hd idxs)\<lparr>priority_type := ''Only OD'',
                                           fill_priority_rank := Some 1\<rparr>])
      else
        let top_cm = Max (set (map (\<lambda>i. od_cm (df ! i)) idxs)) in
        bind_err (is_direct_column paths df idxs) (\<lambda>ds.
          rank_loop paths top_cm 1 (sort_group df idxs ds) df))"

fun classify_loop ::
  "(cell \<times> od_path) list \<Rightarrow> cell list \<Rightarrow> leg_record list \<Rightarrow> py_error + leg_record list" where
  "classify_loop paths [] df = Inr df"
| "classify_loop paths (leg # ls) df =
     bind_err (classify_group paths leg df) (classify_loop paths ls)"

text \<open>
  The keys of \<open>groupby("Flight Leg")\<close>: the distinct legs of the table, sorted as pandas
  sorts the keys of a column of objects, numbers first and by value, then texts in
  lexicographic order.
\<close>

definition cell_key :: "cell \<Rightarrow> bool \<times> real \<times> string" where
  "cell_key c = (case c of Num r \<Rightarrow> (False, r, []) | Str s \<Rightarrow> (True, 0, s))"

definition group_keys :: "leg_record list \<Rightarrow> cell list" where
  "group_keys df = sort_key cell_key (remdups (map flight_leg df))"

text \<open>Line 88: one pass of the loop body per group.\<close>

definition classify :: "(cell \<times> od_path) list \<Rightarrow> leg_record list \<Rightarrow> py_error + leg_record list" where
  "classify paths df = classify_loop paths (group_keys df) df"

subsection \<open>Totals and the report (lines 121-147)\<close>

text \<open>Line 121: the tonnage of the table summed per leg.\<close>

definition leg_summary_of :: "leg_record list \<Rightarrow> (cell \<times> real) list" where
  "leg_summary_of df =
     map (\<lambda>leg. (leg, sum_list (map leg_tonnage (filter (\<lambda>r. flight_leg r = leg) df))))
       (group_keys df)"

text \<open>
  Line 122: \<open>pulp.value(prob.objective)\<close>, the sum of \<open>varValue * cm\<close> over the
  variables, or \<open>None\<close> when a variable has no value.
\<close>

fun objective_value :: "(cell \<times> od_path) list \<Rightarrow> solution \<Rightarrow> real option" where
  "objective_value [] sol = Some 0"
| "objective_value (kp # paths) sol =
     (case varValue sol (fst kp) of
        None \<Rightarrow> None
      | Some v \<Rightarrow> map_option (\<lambda>t. v * cm (snd kp) + t) (objective_value paths sol))"

record report =
  od_summary :: "od_row list"
  leg_detail :: "leg_record list"
  leg_summary :: "(cell \<times> real) list"
  network_profit :: real

text \<open>
  Lines 58-131. An empty list of records gives a frame without columns, on which
  \<open>groupby("Flight Leg")\<close> raises \<open>KeyError\<close>; \<open>round(None, 2)\<close> raises \<open>TypeError\<close>.
  A result \<open>Inl e\<close> is what the outer handler of lines 149-150 turns into the error
  message, with no table shown and no download offered.
\<close>

definition post_solve ::
  "(real \<Rightarrow> string) \<Rightarrow> (cell \<times> od_path) list \<Rightarrow> solution \<Rightarrow> py_error + report" where
  "post_solve ns paths sol =
     bind_err (summary_loop paths sol (variables ns paths)) (\<lambda>summary.
     bind_err (leg_records paths summary) (\<lambda>records.
       if records = [] then Inl KeyError
       else
         bind_err (classify paths records) (\<lambda>df.
           case objective_value paths sol of
             None \<Rightarrow> Inl TypeError
           | Some profit \<Rightarrow>
               Inr \<lparr>od_summary = summary, leg_detail = df,
                    leg_summary = leg_summary_of df,
                    network_profit = round2 profit\<rparr>)))"

text \<open>The whole run, for the solution the solver left for the model built.\<close>

definition run ::
  "(string \<Rightarrow> real option) \<Rightarrow> (real \<Rightarrow> string) \<Rightarrow> raw_row list \<Rightarrow> raw_row list \<Rightarrow> solution
     \<Rightarrow> py_error + report" where
  "run sf ns direct_routes indirect_routes sol =
     post_solve ns (all_od_paths (build sf direct_routes indirect_routes)) sol"

subsection \<open>What the rows contribute: the lists the build is compared with\<close>

text \<open>
  The records of the direct sheet that reach the two writes of lines 28-29, in row
  order, each as (OD code, CM, market share, own capacity).
\<close>

definition direct_records ::
  "(string \<Rightarrow> real option) \<Rightarrow> row list \<Rightarrow> (cell \<times> real \<times> real \<times> real) list" where
  "direct_records sf rs =
     concat (map (\<lambda>r. case direct_fields sf r of Inl e \<Rightarrow> [] | Inr x \<Rightarrow> [x]) rs)"

text \<open>The path and the capacity figure such a record writes.\<close>

definition direct_path :: "cell \<times> real \<times> real \<times> real \<Rightarrow> cell \<times> od_path" where
  "direct_path x =
     (case x of (od, c, ms, cap) \<Rightarrow> (od, \<lparr>legs = [od], cm = c, max_allocable = min ms cap\<rparr>))"

definition direct_claim :: "cell \<times> real \<times> real \<times> real \<Rightarrow> cell \<times> real" where
  "direct_claim x = (case x of (od, c, ms, cap) \<Rightarrow> (od, cap))"

text \<open>The records of the indirect sheet that reach the write of line 39.\<close>

definition indirect_records ::
  "(string \<Rightarrow> real option) \<Rightarrow> row list \<Rightarrow> (cell \<times> od_path) list" where
  "indirect_records sf rs =
     concat (map (\<lambda>r. case indirect_fields sf r of Inl e \<Rightarrow> [] | Inr x \<Rightarrow> [x]) rs)"

text \<open>
  The per-leg capacity figures a row states for its legs, as (leg, figure), up to the
  first one that cannot be read.
\<close>

fun leg_claims ::
  "(string \<Rightarrow> real option) \<Rightarrow> row \<Rightarrow> nat \<Rightarrow> cell list \<Rightarrow> (cell \<times> real) list" where
  "leg_claims sf r i [] = []"
| "leg_claims sf r i (leg # ls) =
     (case float_or_zero sf r (cap_col i) of
        Inl e \<Rightarrow> []
      | Inr leg_cap \<Rightarrow> (leg, leg_cap) # leg_claims sf r (i + 1) ls)"

definition indirect_claims ::
  "(string \<Rightarrow> real option) \<Rightarrow> row list \<Rightarrow> (cell \<times> real) list" where
  "indirect_claims sf rs =
     concat (map (\<lambda>r. case indirect_fields sf r of
                         Inl e \<Rightarrow> []
                       | Inr (od, p) \<Rightarrow> leg_claims sf r 0 (legs p)) rs)"

text \<open>Every path written, in the order of the writes: direct sheet first.\<close>

definition registered ::
  "(string \<Rightarrow> real option) \<Rightarrow> raw_row list \<Rightarrow> raw_row list \<Rightarrow> (cell \<times> od_path) list" where
  "registered sf D I =
     map direct_path (direct_records sf (map clean_row D)) @
     indirect_records sf (map clean_row I)"


definition claims_on :: "cell \<Rightarrow> (cell \<times> real) list \<Rightarrow> real list" where
  "claims_on l cs = map snd (filter (\<lambda>lc. fst lc = l) cs)"

text \<open>The minimum of a list of figures; no figure, no entry.\<close>

definition min_of :: "real list \<Rightarrow> real option" where
  "min_of xs = (if xs = [] then None else Some (Min (set xs)))"

text \<open>Line 43 as one step on the dictionary, and the minimum it accumulates.\<close>

definition apply_claim :: "cell \<times> real \<Rightarrow> (cell \<times> real) list \<Rightarrow> (cell \<times> real) list" where
  "apply_claim lc caps = AList.update (fst lc) (min_cap (map_of caps (fst lc)) (snd lc)) caps"

definition min_onto :: "real option \<Rightarrow> real list \<Rightarrow> real option" where
  "min_onto start xs =
     (case start of
        None \<Rightarrow> min_of xs
      | Some v \<Rightarrow> Some (Min (insert v (set xs))))"


subsection \<open>Sheets for the examples\<close>

text \<open>
  A row of the direct sheet and a row of the indirect sheet with the columns the loops
  read; \<open>2st Leg AI Cap\<close> is the label line 41 builds for the second leg.
\<close>

definition direct_row :: "raw_cell \<Rightarrow> raw_cell \<Rightarrow> raw_cell \<Rightarrow> raw_cell \<Rightarrow> raw_row" where
  "direct_row od c share cap =
     [''O-D'' \<mapsto> od, ''CM'' \<mapsto> c, ''AI Share'' \<mapsto> share, ''AI Cap'' \<mapsto> cap]"

definition indirect_row ::
  "raw_cell \<Rightarrow> raw_cell \<Rightarrow> raw_cell \<Rightarrow> raw_cell \<Rightarrow> raw_cell \<Rightarrow> raw_cell \<Rightarrow> raw_cell \<Rightarrow> raw_row" where
  "indirect_row od c share l1 l2 cap1 cap2 =
     [''O-D'' \<mapsto> od, ''CM'' \<mapsto> c, ''AI Share'' \<mapsto> share,
      ''1st Leg O-D'' \<mapsto> l1, ''2nd Leg O-D'' \<mapsto> l2,
      ''1st Leg AI Cap'' \<mapsto> cap1, ''2st Leg AI Cap'' \<mapsto> cap2]"

subsection \<open>Texts that survive the round trip through a variable name\<close>

text \<open>
  The OD codes the round trip is stated for: letters, digits and the hyphen; and whether a
  text occurs in another as a contiguous part.
\<close>

definition alnum_chars :: string where
  "alnum_chars = ''abcdefghijklmnopqrstuvwxyzABCDEFGHIJKLMNOPQRSTUVWXYZ0123456789''"

definition od_code_ok :: "string \<Rightarrow> bool" where
  "od_code_ok s = list_all (\<lambda>c. c \<in> set (alnum_chars @ ''-'')) s"

fun occurs :: "string \<Rightarrow> string \<Rightarrow> bool" where
  "occurs old [] = (old = [])"
| "occurs old (c # cs) = (take (length old) (c # cs) = old \<or> occurs old cs)"

text \<open>PuLP's rewriting of one character, and the rewriting line 62 applies to one character.\<close>

definition san_char :: "char \<Rightarrow> char" where
  "san_char c = (if c \<in> set ''-+[] ->/'' then CHR ''_'' else c)"

definition unsan_char :: "char \<Rightarrow> char" where
  "unsan_char c = (if c = CHR ''_'' then CHR ''-'' else c)"

text \<open>
  A key of the registry whose text comes back from its variable's name: a text of
  letters, digits and hyphens that does not hold \<open>CargoTons-\<close>.
\<close>

definition text_key_ok :: "cell \<Rightarrow> bool" where
  "text_key_ok k = (case k of Str s \<Rightarrow> od_code_ok s \<and> \<not> occurs ''CargoTons-'' s | Num r \<Rightarrow> False)"

definition keys_ok :: "(cell \<times> od_path) list \<Rightarrow> bool" where
  "keys_ok paths = list_all (\<lambda>kp. text_key_ok (fst kp)) paths"

subsection \<open>The OD summary, described row by row\<close>

text \<open>
  The variable of a path, the paths in the order of their variables' names, and the row
  of the OD summary a path with the value \<open>x\<close> gives.
\<close>

definition var_of :: "(real \<Rightarrow> string) \<Rightarrow> cell \<times> od_path \<Rightarrow> string \<times> cell" where
  "var_of ns kp = (var_name ns (fst kp), fst kp)"

definition sorted_paths :: "(real \<Rightarrow> string) \<Rightarrow> (cell \<times> od_path) list \<Rightarrow> (cell \<times> od_path) list" where
  "sorted_paths ns paths = sort_key (\<lambda>kp. var_name ns (fst kp)) paths"

definition summary_row :: "(real \<Rightarrow> string) \<Rightarrow> (cell \<Rightarrow> real) \<Rightarrow> cell \<times> od_path \<Rightarrow> od_row" where
  "summary_row ns x kp =
     \<lparr>od_pair = recover (var_name ns (fst kp)), cargo_tonnage = round2 (x (fst kp)),
      cm_per_ton = cm (snd kp), total_profit = round2 (x (fst kp) * cm (snd kp))\<rparr>"




subsection \<open>The priority classifier, described group by group\<close>

text \<open>
  A contributor is direct when its path has a single leg, and known when its code is a
  key of the registry.
\<close>

definition single_leg :: "(cell \<times> od_path) list \<Rightarrow> string \<Rightarrow> bool" where
  "single_leg paths od =
     (case map_of paths (Str od) of None \<Rightarrow> False | Some props \<Rightarrow> length (legs props) = 1)"

definition known_od :: "(cell \<times> od_path) list \<Rightarrow> string \<Rightarrow> bool" where
  "known_od paths od \<longleftrightarrow> map_of paths (Str od) \<noteq> None"

text \<open>
  The order of section 4.3, step 3: CM descending, and among equal CM direct before
  indirect. \<open>precedes\<close> is the strict order itself; \<open>rank_key\<close> is the key an ascending
  sort orders by; \<open>leg_order\<close> is the group of a leg sorted by it.
\<close>

definition precedes :: "(cell \<times> od_path) list \<Rightarrow> leg_record \<Rightarrow> leg_record \<Rightarrow> bool" where
  "precedes paths a b \<longleftrightarrow>
     od_cm b < od_cm a \<or>
     (od_cm a = od_cm b \<and> single_leg paths (od_contributor a) \<and> \<not> single_leg paths (od_contributor b))"

definition rank_key :: "(cell \<times> od_path) list \<Rightarrow> leg_record \<Rightarrow> real \<times> bool" where
  "rank_key paths r = (- od_cm r, \<not> single_leg paths (od_contributor r))"

definition leg_order :: "(cell \<times> od_path) list \<Rightarrow> leg_record list \<Rightarrow> cell \<Rightarrow> nat list" where
  "leg_order paths df g = sort_key (\<lambda>i. rank_key paths (df ! i)) (group_index g df)"

text \<open>The rows of a table on a leg: the contributors of the leg.\<close>

definition leg_contributors :: "cell \<Rightarrow> leg_record list \<Rightarrow> leg_record list" where
  "leg_contributors g df = filter (\<lambda>r. flight_leg r = g) df"

text \<open>
  The reference rule of section 4.3, steps 1, 2 and 5: a sole contributor is
  \<open>Only OD\<close>; otherwise the label crosses "CM equal to the top CM of the leg" with
  "direct".
\<close>

definition reference_label :: "(cell \<times> od_path) list \<Rightarrow> leg_record list \<Rightarrow> leg_record \<Rightarrow> string" where
  "reference_label paths df r =
     (let contributors = leg_contributors (flight_leg r) df in
      if length contributors = 1 then ''Only OD''
      else case (od_cm r = Max (set (map od_cm contributors)), single_leg paths (od_contributor r)) of
             (True, True) \<Rightarrow> ''Highest CM - Direct''
           | (True, False) \<Rightarrow> ''Highest CM - Indirect''
           | (False, True) \<Rightarrow> ''Direct - Lower CM''
           | (False, False) \<Rightarrow> ''Indirect - Lower CM'')"

text \<open>
  The row the loop of lines 102-119 writes at a rank, and the row a pass of the loop
  over the groups leaves at position \<open>k\<close> of a leg's order.
\<close>

definition ranked :: "(cell \<times> od_path) list \<Rightarrow> real \<Rightarrow> nat \<Rightarrow> leg_record \<Rightarrow> leg_record" where
  "ranked paths top_cm rank r =
     r\<lparr>priority_type := label_of (od_cm r = top_cm) (single_leg paths (od_contributor r)),
       fill_priority_rank := Some rank\<rparr>"

definition group_row :: "(cell \<times> od_path) list \<Rightarrow> leg_record list \<Rightarrow> cell \<Rightarrow> nat \<Rightarrow> leg_record" where
  "group_row paths df g k =
     (let idxs = group_index g df; r = df ! (leg_order paths df g ! k)
      in if length idxs = 1
         then r\<lparr>priority_type := ''Only OD'', fill_priority_rank := Some 1\<rparr>
         else ranked paths (Max (set (map (\<lambda>i. od_cm (df ! i)) idxs))) (1 + k) r)"

text \<open>
  The rule decides between any two rows of a list: what a strict total order on the
  contributors of a leg asks.
\<close>

fun strictly_ordered :: "(cell \<times> od_path) list \<Rightarrow> leg_record list \<Rightarrow> bool" where
  "strictly_ordered paths [] = True"
| "strictly_ordered paths (r # rs) =
     (list_all (\<lambda>s. precedes paths r s \<or> precedes paths s r) rs \<and> strictly_ordered paths rs)"

subsection \<open>A worked example\<close>

text \<open>
  One direct market A-B (CM 10, share 60, capacity 100) and two indirect markets A-C and
  A-D over the leg A-B (CM 20, share 30 each); the registry they build; the optimal
  allocation 40, 30, 30; the leg breakdown before classification; and the report.
\<close>

definition example_direct :: "raw_row list" where
  "example_direct = [direct_row (RStr ''A-B'') (RNum 10) (RNum 60) (RNum 100)]"

definition example_indirect :: "raw_row list" where
  "example_indirect =
     [indirect_row (RStr ''A-C'') (RNum 20) (RNum 30) (RStr ''A-B'') (RStr ''B-C'') (RNum 100) (RNum 50),
      indirect_row (RStr ''A-D'') (RNum 20) (RNum 30) (RStr ''A-B'') (RStr ''B-D'') (RNum 100) (RNum 50)]"

definition example_paths :: "(cell \<times> od_path) list" where
  "example_paths =
     [(Str ''A-B'', \<lparr>legs = [Str ''A-B''], cm = 10, max_allocable = 60\<rparr>),
      (Str ''A-C'', \<lparr>legs = [Str ''A-B'', Str ''B-C''], cm = 20, max_allocable = 30\<rparr>),
      (Str ''A-D'', \<lparr>legs = [Str ''A-B'', Str ''B-D''], cm = 20, max_allocable = 30\<rparr>)]"

definition example_values :: "cell \<Rightarrow> real" where
  "example_values k = (if k = Str ''A-B'' then 40 else 30)"

definition example_solution :: solution where
  "example_solution = \<lparr>status = Optimal, varValue = (\<lambda>k. Some (example_values k))\<rparr>"

definition example_table :: "leg_record list" where
  "example_table =
     [\<lparr>flight_leg = Str ''A-B'', od_contributor = ''A-B'', od_cm = 10, leg_tonnage = 40,
       profit_on_leg = 400, priority_type = ''Fills Remaining'', fill_priority_rank = None\<rparr>,
      \<lparr>flight_leg = Str ''A-B'', od_contributor = ''A-C'', od_cm = 20, leg_tonnage = 30,
       profit_on_leg = 600, priority_type = ''Fills Remaining'', fill_priority_rank = None\<rparr>,
      \<lparr>flight_leg = Str ''B-C'', od_contributor = ''A-C'', od_cm = 20, leg_tonnage = 30,
       profit_on_leg = 600, priority_type = ''Fills Remaining'', fill_priority_rank = None\<rparr>,
      \<lparr>flight_leg = Str ''A-B'', od_contributor = ''A-D'', od_cm = 20, leg_tonnage = 30,
       profit_on_leg = 600, priority_type = ''Fills Remaining'', fill_priority_rank = None\<rparr>,
      \<lparr>flight_leg = Str ''B-D'', od_contributor = ''A-D'', od_cm = 20, leg_tonnage = 30,
       profit_on_leg = 600, priority_type = ''Fills Remaining'', fill_priority_rank = None\<rparr>]"

definition example_report :: report where
  "example_report =
     \<lparr>od_summary =
        [\<lparr>od_pair = ''A-B'', cargo_tonnage = 40, cm_per_ton = 10, total_profit = 400\<rparr>,
         \<lparr>od_pair = ''A-C'', cargo_tonnage = 30, cm_per_ton = 20, total_profit = 600\<rparr>,
         \<lparr>od_pair = ''A-D'', cargo_tonnage = 30, cm_per_ton = 20, total_profit = 600\<rparr>],
      leg_detail =
        [\<lparr>flight_leg = Str ''A-B'', od_contributor = ''A-B'', od_cm = 10, leg_tonnage = 40,
          profit_on_leg = 400, priority_type = ''Direct - Lower CM'',
          fill_priority_rank = Some 3\<rparr>,
         \<lparr>flight_leg = Str ''A-B'', od_contributor = ''A-C'', od_cm = 20, leg_tonnage = 30,
          profit_on_leg = 600, priority_type = ''Highest CM - Indirect'',
          fill_priority_rank = Some 1\<rparr>,
         \<lparr>flight_leg = Str ''B-C'', od_contributor = ''A-C'', od_cm = 20, leg_tonnage = 30,
          profit_on_leg = 600, priority_type = ''Only OD'', fill_priority_rank = Some 1\<rparr>,
         \<lparr>flight_leg = Str ''A-B'', od_contributor = ''A-D'', od_cm = 20, leg_tonnage = 30,
          profit_on_leg = 600, priority_type = ''Highest CM - Indirect'',
          fill_priority_rank = Some 2\<rparr>,
         \<lparr>flight_leg = Str ''B-D'', od_contributor = ''A-D'', od_cm = 20, leg_tonnage = 30,
          profit_on_leg = 600, priority_type = ''Only OD'', fill_priority_rank = Some 1\<rparr>],
      leg_summary = [(Str ''A-B'', 100), (Str ''B-C'', 30), (Str ''B-D'', 30)],
      network_profit = 1600\<rparr>"

section \<open>The build: registry and leg capacities\<close>

lemma map_of_fold_update:
  "map_of (fold (\<lambda>kv. AList.update (fst kv) (snd kv)) es al) = map_of al ++ map_of (rev es)"
proof (induction es arbitrary: al)
  case Nil
  then show ?case by simp
next
  case (Cons e es)
  show ?case
    by (cases e) (simp add: Cons.IH update_conv' map_add_def fun_eq_iff split: option.splits)
qed

lemma fold_direct_paths:
  "all_od_paths (fold (direct_step sf) rs m) =
     fold (\<lambda>kv. AList.update (fst kv) (snd kv)) (map direct_path (direct_records sf rs))
       (all_od_paths m)"
proof (induction rs arbitrary: m)
  case Nil
  then show ?case by (simp add: direct_records_def)
next
  case (Cons r rs)
  show ?case
    using Cons.IH [of "direct_step sf r m"]
    by (auto simp: direct_records_def direct_step_def direct_path_def split: sum.splits)
qed

lemma fold_direct_caps:
  "leg_capacities (fold (direct_step sf) rs m) =
     fold (\<lambda>kv. AList.update (fst kv) (snd kv)) (map direct_claim (direct_records sf rs))
       (leg_capacities m)"
proof (induction rs arbitrary: m)
  case Nil
  then show ?case by (simp add: direct_records_def)
next
  case (Cons r rs)
  show ?case
    using Cons.IH [of "direct_step sf r m"]
    by (auto simp: direct_records_def direct_step_def direct_claim_def split: sum.splits)
qed

lemma leg_loop_claims:
  "leg_loop sf r i ls caps = fold apply_claim (leg_claims sf r i ls) caps"
  by (induction ls arbitrary: i caps) (auto simp: apply_claim_def split: sum.splits)

lemma fold_indirect_paths:
  "all_od_paths (fold (indirect_step sf) rs m) =
     fold (\<lambda>kv. AList.update (fst kv) (snd kv)) (indirect_records sf rs) (all_od_paths m)"
proof (induction rs arbitrary: m)
  case Nil
  then show ?case by (simp add: indirect_records_def)
next
  case (Cons r rs)
  show ?case
    using Cons.IH [of "indirect_step sf r m"]
    by (auto simp: indirect_records_def indirect_step_def split: sum.splits)
qed

lemma fold_indirect_caps:
  "leg_capacities (fold (indirect_step sf) rs m) =
     fold apply_claim (indirect_claims sf rs) (leg_capacities m)"
proof (induction rs arbitrary: m)
  case Nil
  then show ?case by (simp add: indirect_claims_def)
next
  case (Cons r rs)
  show ?case
    using Cons.IH [of "indirect_step sf r m"]
    by (auto simp: indirect_claims_def indirect_step_def leg_loop_claims split: sum.splits)
qed

lemma min_onto_step: "min_onto (Some (min_cap m v)) xs = min_onto m (v # xs)"
proof (cases m)
  case None
  then show ?thesis by (simp add: min_onto_def min_of_def min_cap_def)
next
  case (Some w)
  have "Min (insert (min w v) (set xs)) = Min (insert w (insert v (set xs)))"
  proof (cases "xs = []")
    case True
    then show ?thesis by simp
  next
    case False
    then have ne: "set xs \<noteq> {}" by simp
    show ?thesis
      using ne by (simp add: Min_insert min.assoc)
  qed
  with Some show ?thesis by (simp add: min_onto_def min_cap_def)
qed

lemma map_of_fold_apply_claim:
  "map_of (fold apply_claim cs caps) l = min_onto (map_of caps l) (claims_on l cs)"
proof (induction cs arbitrary: caps)
  case Nil
  then show ?case by (simp add: min_onto_def min_of_def claims_on_def split: option.splits)
next
  case (Cons c cs)
  show ?case
  proof (cases "fst c = l")
    case True
    have "map_of (apply_claim c caps) l = Some (min_cap (map_of caps l) (snd c))"
      using True by (simp add: apply_claim_def update_conv')
    moreover have "claims_on l (c # cs) = snd c # claims_on l cs"
      using True by (simp add: claims_on_def)
    ultimately show ?thesis
      by (simp add: Cons.IH min_onto_step)
  next
    case False
    have "map_of (apply_claim c caps) l = map_of caps l"
      using False by (simp add: apply_claim_def update_conv')
    moreover have "claims_on l (c # cs) = claims_on l cs"
      using False by (simp add: claims_on_def)
    ultimately show ?thesis
      by (simp add: Cons.IH)
  qed
qed

text \<open>The registry is the list of the paths written, a later write winning.\<close>

lemma build_paths:
  "map_of (all_od_paths (build sf D I)) = map_of (rev (registered sf D I))"
  by (simp add: build_def registered_def fold_indirect_paths fold_direct_paths
      map_of_fold_update)

text \<open>
  A leg's capacity: the figure of the last direct record with that code, lowered to the
  minimum with every figure the indirect records state for it.
\<close>

lemma build_caps:
  "map_of (leg_capacities (build sf D I)) l =
     min_onto (map_of (rev (map direct_claim (direct_records sf (map clean_row D)))) l)
       (claims_on l (indirect_claims sf (map clean_row I)))"
  by (simp add: build_def fold_indirect_caps fold_direct_caps map_of_fold_apply_claim
      map_of_fold_update)

lemma cap_col_0: "cap_col 0 = ''1st Leg AI Cap''"
  by (simp add: cap_col_def str_nat.simps)

lemma cap_col_1: "cap_col (Suc 0) = ''2st Leg AI Cap''"
  by (simp add: cap_col_def str_nat.simps)

lemma direct_fields_row:
  "direct_fields sf (clean_row (direct_row od (RNum c) (RNum s) (RNum cap))) =
     Inr (clean_cell od, c, s, cap)"
  by (simp add: direct_fields_def direct_row_def clean_row_def row_get_def bind_err_def
      float_or_zero_def py_float_def notna_def del: clean_cell.simps(2))

lemma indirect_fields_row:
  "indirect_fields sf (clean_row (indirect_row od (RNum c) (RNum s) l1 l2 c1 c2)) =
     Inr (clean_cell od, \<lparr>legs = [clean_cell l1, clean_cell l2], cm = c, max_allocable = s\<rparr>)"
  by (simp add: indirect_fields_def indirect_row_def clean_row_def row_get_def bind_err_def
      float_or_zero_def py_float_def notna_def del: clean_cell.simps(2))

lemma leg_claims_row:
  "leg_claims sf (clean_row (indirect_row od c s l1 l2 (RNum c1) (RNum c2))) 0 [a, b] = [(a, c1), (b, c2)]"
  by (simp add: indirect_row_def clean_row_def row_get_def bind_err_def
      float_or_zero_def py_float_def notna_def cap_col_0 cap_col_1)






lemma fst_direct_path: "map fst (map direct_path rs) = map fst rs"
  by (induction rs) (auto simp: direct_path_def)







lemma direct_records_append:
  "direct_records sf (xs @ ys) = direct_records sf xs @ direct_records sf ys"
  by (simp add: direct_records_def)

lemma indirect_records_append:
  "indirect_records sf (xs @ ys) = indirect_records sf xs @ indirect_records sf ys"
  by (simp add: indirect_records_def)

lemma direct_records_Cons:
  "direct_fields sf r = Inr x \<Longrightarrow> direct_records sf (r # rs) = x # direct_records sf rs"
  by (simp add: direct_records_def)

lemma indirect_records_Cons:
  "indirect_fields sf r = Inr x \<Longrightarrow> indirect_records sf (r # rs) = x # indirect_records sf rs"
  by (simp add: indirect_records_def)

lemma direct_record_origin:
  "x \<in> set (direct_records sf rs) \<Longrightarrow> \<exists>r\<in>set rs. direct_fields sf r = Inr x"
  by (auto simp: direct_records_def split: sum.splits)

lemma indirect_record_origin:
  "x \<in> set (indirect_records sf rs) \<Longrightarrow> \<exists>r\<in>set rs. indirect_fields sf r = Inr x"
  by (auto simp: indirect_records_def split: sum.splits)

lemma last_wins:
  "k \<notin> fst ` set es2 \<Longrightarrow> map_of (rev (es1 @ (k, v) # es2)) k = Some v"
  by (simp add: map_add_def map_of_eq_None_iff [THEN iffD2] split: option.splits)





lemma indirect_claims_Nil: "indirect_claims sf [] = []"
  by (simp add: indirect_claims_def)


lemma indirect_claims_row:
  "indirect_claims sf (clean_row (indirect_row od (RNum c) (RNum s) l1 l2 (RNum c1) (RNum c2)) # rs) =
     (clean_cell l1, c1) # (clean_cell l2, c2) # indirect_claims sf rs"
  by (simp add: indirect_claims_def indirect_fields_row leg_claims_row
      del: clean_cell.simps(2) leg_claims.simps)

lemma direct_row_missing_key_skipped:
  assumes "k \<in> {''O-D'', ''CM'', ''AI Share'', ''AI Cap''}" and "r k = None"
  shows "direct_step sf (clean_row r) m = m"
proof -
  have "row_get (clean_row r) k = Inl KeyError"
    using assms(2) by (simp add: row_get_def clean_row_def)
  with assms(1) have "\<exists>e. direct_fields sf (clean_row r) = Inl e"
    by (auto simp: direct_fields_def float_or_zero_def bind_err_def split: sum.splits)
  then show ?thesis by (auto simp: direct_step_def)
qed

lemma indirect_row_missing_key_skipped:
  assumes "k \<in> {''O-D'', ''CM'', ''AI Share'', ''1st Leg O-D'', ''2nd Leg O-D''}" and "r k = None"
  shows "indirect_step sf (clean_row r) m = m"
proof -
  have "row_get (clean_row r) k = Inl KeyError"
    using assms(2) by (simp add: row_get_def clean_row_def)
  with assms(1) have "\<exists>e. indirect_fields sf (clean_row r) = Inl e"
    by (auto simp: indirect_fields_def float_or_zero_def bind_err_def split: sum.splits)
  then show ?thesis by (auto simp: indirect_step_def)
qed

subsection \<open>Claim C4: the contract of the build\<close>




subsection \<open>Claim C6: malformed rows\<close>

text \<open>
  Claim C6 fails on the code. An indirect row whose sheet has no column
  \<open>2st Leg AI Cap\<close> (the label line 41 builds for the second leg) raises at the second
  leg, after line 39 has written its path and line 43 the capacity of its first leg: the
  row is not skipped. A direct row whose \<open>O-D\<close> cell is blank is not skipped either:
  \<open>fillna(0)\<close> has made the cell 0, and the row is registered under the key 0.
\<close>

theorem malformed_rows_contribute:
  "build sf []
     [[''O-D'' \<mapsto> RStr ''A-C'', ''CM'' \<mapsto> RNum 20, ''AI Share'' \<mapsto> RNum 30,
       ''1st Leg O-D'' \<mapsto> RStr ''A-B'', ''2nd Leg O-D'' \<mapsto> RStr ''B-C'',
       ''1st Leg AI Cap'' \<mapsto> RNum 50, ''2nd Leg AI Cap'' \<mapsto> RNum 40]] =
     \<lparr>all_od_paths =
        [(Str ''A-C'', \<lparr>legs = [Str ''A-B'', Str ''B-C''], cm = 20, max_allocable = 30\<rparr>)],
      leg_capacities = [(Str ''A-B'', 50)]\<rparr> \<and>
   all_od_paths (build sf
     [direct_row (RStr ''A-B'') (RNum 10) (RNum 100) (RNum 100),
      direct_row RBlank (RNum 5) (RNum 7) (RNum 9)] []) =
     [(Str ''A-B'', \<lparr>legs = [Str ''A-B''], cm = 10, max_allocable = 100\<rparr>),
      (Num 0, \<lparr>legs = [Num 0], cm = 5, max_allocable = 7\<rparr>)]"
  by (simp add: build_def indirect_step_def indirect_fields_def direct_step_def
      direct_fields_def direct_row_def clean_row_def row_get_def bind_err_def
      float_or_zero_def py_float_def notna_def cap_col_0 cap_col_1 min_cap_def)

subsection \<open>Claim C10: a later record with the same OD code\<close>

text \<open>
  Claim C10. A direct record and a later indirect record carry the same OD code, and no
  indirect record after it does. Then the registry holds the indirect record's path
  under that code. If the direct record is the last direct one with the code, its own
  capacity is still in the leg mapping under that code: the entry is the minimum of it
  and of the figures the indirect records state for that leg code. And whatever is
  written last under a key is what the registry holds for it.
\<close>

theorem later_record_overrides:
  assumes rd: "direct_fields sf (clean_row rd) = Inr (od, c, ms, cap)"
    and ri: "indirect_fields sf (clean_row ri) = Inr (od, p)"
    and last_i: "\<forall>r\<in>set I2. \<forall>x. indirect_fields sf (clean_row r) = Inr x \<longrightarrow> fst x \<noteq> od"
  shows "map_of (all_od_paths (build sf (D1 @ rd # D2) (I1 @ ri # I2))) od = Some p \<and>
         ((\<forall>r\<in>set D2. \<forall>x. direct_fields sf (clean_row r) = Inr x \<longrightarrow> fst x \<noteq> od) \<longrightarrow>
            map_of (leg_capacities (build sf (D1 @ rd # D2) (I1 @ ri # I2))) od =
              Some (Min (insert cap
                (set (claims_on od (indirect_claims sf (map clean_row (I1 @ ri # I2)))))))) \<and>
         (\<forall>es1 k v es2.
            registered sf (D1 @ rd # D2) (I1 @ ri # I2) = es1 @ (k, v) # es2 \<longrightarrow>
            k \<notin> fst ` set es2 \<longrightarrow>
            map_of (all_od_paths (build sf (D1 @ rd # D2) (I1 @ ri # I2))) k = Some v)"
proof (intro conjI impI allI)
  let ?D = "D1 @ rd # D2" and ?I = "I1 @ ri # I2"
  have notin: "od \<notin> fst ` set (indirect_records sf (map clean_row I2))"
  proof
    assume "od \<in> fst ` set (indirect_records sf (map clean_row I2))"
    then obtain x where x: "x \<in> set (indirect_records sf (map clean_row I2))" and "fst x = od"
      by auto
    from indirect_record_origin [OF x] obtain r where "r \<in> set I2"
      and "indirect_fields sf (clean_row r) = Inr x" by auto
    with last_i \<open>fst x = od\<close> show False by blast
  qed
  have reg: "registered sf ?D ?I =
      (map direct_path (direct_records sf (map clean_row ?D)) @
       indirect_records sf (map clean_row I1)) @ (od, p) # indirect_records sf (map clean_row I2)"
    by (simp add: registered_def indirect_records_append indirect_records_Cons [OF ri])
  show "map_of (all_od_paths (build sf ?D ?I)) od = Some p"
    unfolding build_paths reg by (rule last_wins [OF notin])
next
  let ?D = "D1 @ rd # D2" and ?I = "I1 @ ri # I2"
  assume last_d: "\<forall>r\<in>set D2. \<forall>x. direct_fields sf (clean_row r) = Inr x \<longrightarrow> fst x \<noteq> od"
  have notin: "od \<notin> fst ` set (map direct_claim (direct_records sf (map clean_row D2)))"
  proof
    assume "od \<in> fst ` set (map direct_claim (direct_records sf (map clean_row D2)))"
    then obtain x where x: "x \<in> set (direct_records sf (map clean_row D2))"
      and "fst (direct_claim x) = od" by auto
    have "fst (direct_claim x) = fst x" by (cases x) (simp add: direct_claim_def)
    with \<open>fst (direct_claim x) = od\<close> have "fst x = od" by simp
    from direct_record_origin [OF x] obtain r where "r \<in> set D2"
      and "direct_fields sf (clean_row r) = Inr x" by auto
    with last_d \<open>fst x = od\<close> show False by blast
  qed
  have cl: "map direct_claim (direct_records sf (map clean_row ?D)) =
      map direct_claim (direct_records sf (map clean_row D1)) @
      (od, cap) # map direct_claim (direct_records sf (map clean_row D2))"
    by (simp add: direct_records_append direct_records_Cons [OF rd] direct_claim_def)
  have "map_of (rev (map direct_claim (direct_records sf (map clean_row ?D)))) od = Some cap"
    unfolding cl by (rule last_wins [OF notin])
  then show "map_of (leg_capacities (build sf ?D ?I)) od =
      Some (Min (insert cap (set (claims_on od (indirect_claims sf (map clean_row ?I))))))"
    by (simp add: build_caps min_onto_def)
next
  fix es1 k v es2
  assume reg: "registered sf (D1 @ rd # D2) (I1 @ ri # I2) = es1 @ (k, v) # es2"
    and notin: "k \<notin> fst ` set es2"
  show "map_of (all_od_paths (build sf (D1 @ rd # D2) (I1 @ ri # I2))) k = Some v"
    unfolding build_paths reg by (rule last_wins [OF notin])
qed

theorem later_record_overrides_witness:
  "map_of (all_od_paths (build (\<lambda>s. None)
      ([] @ direct_row (RStr ''A-B'') (RNum 10) (RNum 60) (RNum 50) # [])
      ([] @ indirect_row (RStr ''A-B'') (RNum 20) (RNum 30) (RStr ''A-X'') (RStr ''X-B'')
          (RNum 40) (RNum 70) # []))) (Str ''A-B'') =
     Some \<lparr>legs = [Str ''A-X'', Str ''X-B''], cm = 20, max_allocable = 30\<rparr> \<and>
   map_of (leg_capacities (build (\<lambda>s. None)
      ([] @ direct_row (RStr ''A-B'') (RNum 10) (RNum 60) (RNum 50) # [])
      ([] @ indirect_row (RStr ''A-B'') (RNum 20) (RNum 30) (RStr ''A-X'') (RStr ''X-B'')
          (RNum 40) (RNum 70) # []))) (Str ''A-B'') = Some 50"
proof -
  let ?sf = "\<lambda>s::string. None::real option"
  let ?d = "direct_row (RStr ''A-B'') (RNum 10) (RNum 60) (RNum 50)"
  let ?i = "indirect_row (RStr ''A-B'') (RNum 20) (RNum 30) (RStr ''A-X'') (RStr ''X-B'')
          (RNum 40) (RNum 70)"
  have fd: "direct_fields ?sf (clean_row ?d) = Inr (Str ''A-B'', 10, 60, 50)"
    by (simp add: direct_fields_row)
  have fi: "indirect_fields ?sf (clean_row ?i) =
      Inr (Str ''A-B'', \<lparr>legs = [Str ''A-X'', Str ''X-B''], cm = 20, max_allocable = 30\<rparr>)"
    by (simp add: indirect_fields_row)
  have e: "\<forall>r\<in>set ([]::raw_row list). \<forall>x. indirect_fields ?sf (clean_row r) = Inr x \<longrightarrow> fst x \<noteq> Str ''A-B''"
    by simp
  have cl: "claims_on (Str ''A-B'') (indirect_claims ?sf (map clean_row ([] @ ?i # []))) = []"
    by (simp add: indirect_claims_row indirect_claims_Nil claims_on_def)
  from later_record_overrides [OF fd fi e, of "[]" "[]" "[]"] cl show ?thesis
    by simp
qed

section \<open>Supporting facts about the built model and the linear program\<close>

lemma leg_load_zero: "leg_load paths (\<lambda>k. 0) leg = 0"
  by (simp add: leg_load_def)

lemma origin_feasible:
  assumes "list_all (\<lambda>lc. 0 \<le> snd lc) (leg_capacities m)"
    and "list_all (\<lambda>kp. 0 \<le> max_allocable (snd kp)) (all_od_paths m)"
  shows "lp_feasible m (\<lambda>k. 0)"
  using assms by (simp add: lp_feasible_def leg_load_zero list_all_iff)

lemma feasible_bounds:
  assumes "lp_feasible m x" and "(k, p) \<in> set (all_od_paths m)"
  shows "0 \<le> x k \<and> x k \<le> max_allocable p"
  using assms by (fastforce simp: lp_feasible_def list_all_iff)

lemma distinct_fold_update:
  "distinct (map fst al) \<Longrightarrow>
   distinct (map fst (fold (\<lambda>kv. AList.update (fst kv) (snd kv)) es al))"
  by (induction es arbitrary: al) (simp_all add: distinct_update)

lemma build_distinct_keys: "distinct (map fst (all_od_paths (build sf D I)))"
  by (simp add: build_def fold_indirect_paths fold_direct_paths distinct_fold_update)

lemma set_update_subset: "set (AList.update k v al) \<subseteq> insert (k, v) (set al)"
  by (induction al) auto

lemma set_fold_update:
  "set (fold (\<lambda>kv. AList.update (fst kv) (snd kv)) es al) \<subseteq> set al \<union> set es"
proof (induction es arbitrary: al)
  case Nil
  then show ?case by simp
next
  case (Cons e es)
  have "set (fold (\<lambda>kv. AList.update (fst kv) (snd kv)) es (AList.update (fst e) (snd e) al))
      \<subseteq> set (AList.update (fst e) (snd e) al) \<union> set es" by (rule Cons.IH)
  also have "\<dots> \<subseteq> insert (fst e, snd e) (set al) \<union> set es"
    using set_update_subset [of "fst e" "snd e" al] by auto
  finally show ?case by auto
qed

lemma registered_legs:
  assumes "kp \<in> set (registered sf D I)"
  shows "legs (snd kp) \<noteq> []"
proof -
  from assms consider
    (d) x where "x \<in> set (direct_records sf (map clean_row D))" "kp = direct_path x"
    | (i) "kp \<in> set (indirect_records sf (map clean_row I))"
    by (auto simp: registered_def)
  then show ?thesis
  proof cases
    case d
    have "legs (snd (direct_path x)) \<noteq> []" by (cases x) (simp add: direct_path_def)
    with d(2) show ?thesis by simp
  next
    case i
    from indirect_record_origin [OF i] obtain r where "indirect_fields sf r = Inr kp" by blast
    then show ?thesis
      by (auto simp: indirect_fields_def bind_err_def split: sum.splits)
  qed
qed

lemma build_legs_nonempty:
  "list_all (\<lambda>kp. legs (snd kp) \<noteq> []) (all_od_paths (build sf D I))"
proof -
  have "set (all_od_paths (build sf D I)) \<subseteq> set (registered sf D I)"
    using set_fold_update [of "registered sf D I" "[]"]
    by (simp add: build_def registered_def fold_indirect_paths fold_direct_paths fold_append)
  then show ?thesis
    using registered_legs by (auto simp: list_all_iff)
qed

section \<open>Variable names and recovered keys\<close>

lemma replace_all_absent:
  "old \<noteq> [] \<Longrightarrow> \<not> occurs old s \<Longrightarrow> replace_all old new s = s"
  by (induction s) auto

lemma replace_all_prefix:
  assumes "old \<noteq> []"
  shows "replace_all old new (old @ s) = new @ replace_all old new s"
proof -
  from assms obtain a as where old: "old = a # as" by (cases old) auto
  show ?thesis by (simp add: old)
qed

lemma replace_all_char:
  "replace_all [a] [b] s = map (\<lambda>c. if c = a then b else c) s"
  by (induction s) auto

lemma sanitize_append: "sanitize (xs @ ys) = sanitize xs @ sanitize ys"
  by (simp add: sanitize_def)

lemma sanitize_prefix: "sanitize ''CargoTons_'' = ''CargoTons_''"
  by (simp add: sanitize_def)

lemma sanitize_map: "sanitize s = map san_char s"
  by (simp add: sanitize_def san_char_def)

lemma ok_char_cases:
  assumes "c \<in> set (alnum_chars @ ''-'')"
  shows "c = CHR ''-'' \<and> san_char c = CHR ''_'' \<or> c \<noteq> CHR ''-'' \<and> san_char c = c \<and> c \<noteq> CHR ''_''"
  using assms by (auto simp: alnum_chars_def san_char_def)

lemma unsan_san: "c \<in> set (alnum_chars @ ''-'') \<Longrightarrow> unsan_char (san_char c) = c"
  using ok_char_cases [of c] by (auto simp: unsan_char_def)

lemma map_unsan_san: "od_code_ok s \<Longrightarrow> map unsan_char (map san_char s) = s"
  by (induction s) (simp_all add: od_code_ok_def unsan_san del: set_append)

lemma od_code_ok_take: "od_code_ok s \<Longrightarrow> od_code_ok (take n s)"
  unfolding od_code_ok_def list_all_iff by (meson in_set_takeD)

lemma od_code_ok_Cons: "od_code_ok (c # s) \<Longrightarrow> od_code_ok s"
  by (simp add: od_code_ok_def)

lemma occurs_sanitize:
  assumes "od_code_ok s" and "occurs ''CargoTons_'' (sanitize s)"
  shows "occurs ''CargoTons-'' s"
  using assms
proof (induction s)
  case Nil
  then show ?case by (simp add: sanitize_def)
next
  case (Cons c s)
  let ?n = "length ''CargoTons_''"
  have "occurs ''CargoTons_'' (san_char c # sanitize s)"
    using Cons.prems(2) by (simp only: sanitize_map list.map)
  then consider
    (here) "take ?n (map san_char (c # s)) = ''CargoTons_''"
    | (later) "occurs ''CargoTons_'' (sanitize s)"
    unfolding occurs.simps sanitize_map list.map by blast
  then show ?case
  proof cases
    case here
    then have "map san_char (take ?n (c # s)) = ''CargoTons_''" by (simp only: take_map)
    then have "map unsan_char (map san_char (take ?n (c # s))) = map unsan_char ''CargoTons_''"
      by (rule arg_cong)
    moreover have "od_code_ok (take ?n (c # s))" using Cons.prems(1) by (rule od_code_ok_take)
    ultimately have "take ?n (c # s) = map unsan_char ''CargoTons_''"
      by (simp only: map_unsan_san)
    then have "take (length ''CargoTons-'') (c # s) = ''CargoTons-''" by (simp add: unsan_char_def)
    then show ?thesis unfolding occurs.simps by (rule disjI1)
  next
    case later
    with Cons.IH od_code_ok_Cons [OF Cons.prems(1)] show ?thesis by simp
  qed
qed

lemma recover_var_name_text:
  assumes "od_code_ok s" and "\<not> occurs ''CargoTons-'' s"
  shows "recover (var_name ns (Str s)) = s"
proof -
  have name: "var_name ns (Str s) = ''CargoTons_'' @ sanitize s"
    by (simp add: var_name_def key_str_def sanitize_append sanitize_prefix del: append.simps)
  have no: "\<not> occurs ''CargoTons_'' (sanitize s)"
    using assms occurs_sanitize by blast
  have "replace_all ''CargoTons_'' [] (''CargoTons_'' @ sanitize s) =
        [] @ replace_all ''CargoTons_'' [] (sanitize s)"
    by (rule replace_all_prefix) simp
  also have "\<dots> = sanitize s"
    using no by (simp add: replace_all_absent)
  finally have strip: "py_replace ''CargoTons_'' [] (var_name ns (Str s)) = sanitize s"
    by (simp add: py_replace_def name del: replace_all.simps append.simps)
  have "replace_all ''_'' ''-'' (sanitize s) = map unsan_char (map san_char s)"
    unfolding replace_all_char sanitize_map unsan_char_def by (rule refl)
  also have "\<dots> = s" using assms(1) by (rule map_unsan_san)
  finally have "py_replace ''_'' ''-'' (sanitize s) = s"
    by (simp add: py_replace_def del: replace_all.simps)
  with strip show ?thesis
    by (simp add: recover_def)
qed

section \<open>The priority classifier\<close>

lemma group_index_iff: "i \<in> set (group_index g df) \<longleftrightarrow> i < length df \<and> flight_leg (df ! i) = g"
  by (auto simp: group_index_def)

lemma distinct_group_index: "distinct (group_index g df)"
  by (simp add: group_index_def)

lemma is_direct_known: "known_od paths od \<Longrightarrow> is_direct paths od = Inr (single_leg paths od)"
  by (auto simp: known_od_def is_direct_def single_leg_def split: option.splits)

lemma is_direct_column_known:
  "(\<And>i. i \<in> set idxs \<Longrightarrow> known_od paths (od_contributor (df ! i))) \<Longrightarrow>
   is_direct_column paths df idxs = Inr (map (\<lambda>i. single_leg paths (od_contributor (df ! i))) idxs)"
  by (induction idxs) (simp_all add: is_direct_known bind_err_def)

lemma insort_key_cong_set:
  "(\<And>y. y \<in> insert x (set ys) \<Longrightarrow> f y = g y) \<Longrightarrow> insort_key f x ys = insort_key g x ys"
  by (induction ys) auto

lemma sort_key_cong_set:
  "(\<And>y. y \<in> set xs \<Longrightarrow> f y = g y) \<Longrightarrow> sort_key f xs = sort_key g xs"
proof (induction xs)
  case Nil
  then show ?case by simp
next
  case (Cons x xs)
  then have "sort_key f xs = sort_key g xs" by simp
  moreover have "insort_key f x (sort_key g xs) = insort_key g x (sort_key g xs)"
    by (rule insort_key_cong_set) (use Cons.prems in auto)
  ultimately show ?case by simp
qed

lemma insort_key_map:
  "insort_key k (h x) (map h ys) = map h (insort_key (\<lambda>y. k (h y)) x ys)"
  by (induction ys) auto

lemma sort_key_map: "sort_key k (map h xs) = map h (sort_key (\<lambda>y. k (h y)) xs)"
  by (induction xs) (simp_all add: insort_key_map)

lemma zip_map_self: "zip xs (map D xs) = map (\<lambda>i. (i, D i)) xs"
  by (induction xs) auto

lemma sort_group_eq:
  assumes "\<And>i. i \<in> set idxs \<Longrightarrow> cur ! i = df ! i"
  shows "sort_group cur idxs (map (\<lambda>i. single_leg paths (od_contributor (df ! i))) idxs) =
         sort_key (\<lambda>i. rank_key paths (df ! i)) idxs"
proof -
  have "sort_key (\<lambda>i. (- od_cm (cur ! i), \<not> single_leg paths (od_contributor (df ! i)))) idxs =
        sort_key (\<lambda>i. rank_key paths (df ! i)) idxs"
    by (rule sort_key_cong_set) (simp add: rank_key_def assms)
  then show ?thesis
    by (simp add: sort_group_def zip_map_self sort_key_map o_def)
qed

lemma rank_loop_result:
  assumes "distinct idxs"
    and "\<And>i. i \<in> set idxs \<Longrightarrow> i < length cur \<and> known_od paths (od_contributor (cur ! i))"
  shows "\<exists>res. rank_loop paths tc rank idxs cur = Inr res \<and> length res = length cur \<and>
           (\<forall>j. j \<notin> set idxs \<longrightarrow> res ! j = cur ! j) \<and>
           (\<forall>k<length idxs. res ! (idxs ! k) = ranked paths tc (rank + k) (cur ! (idxs ! k)))"
  using assms
proof (induction idxs arbitrary: rank cur)
  case Nil
  then show ?case by simp
next
  case (Cons idx idxs)
  let ?cur' = "cur[idx := ranked paths tc rank (cur ! idx)]"
  have idx: "idx < length cur" and known: "known_od paths (od_contributor (cur ! idx))"
    using Cons.prems(2) [of idx] by auto
  have notin: "idx \<notin> set idxs" and d: "distinct idxs" using Cons.prems(1) by auto
  have same: "\<And>i. i \<in> set idxs \<Longrightarrow> ?cur' ! i = cur ! i"
    using notin by (metis nth_list_update_neq)
  have pre: "\<And>i. i \<in> set idxs \<Longrightarrow> i < length ?cur' \<and> known_od paths (od_contributor (?cur' ! i))"
    using Cons.prems(2) same by auto
  from Cons.IH [OF d pre, of "rank + 1"] obtain res where
    res: "rank_loop paths tc (rank + 1) idxs ?cur' = Inr res"
    and len: "length res = length ?cur'"
    and out: "\<forall>j. j \<notin> set idxs \<longrightarrow> res ! j = ?cur' ! j"
    and inn: "\<forall>k<length idxs. res ! (idxs ! k) = ranked paths tc (rank + 1 + k) (?cur' ! (idxs ! k))"
    by blast
  have step: "rank_loop paths tc rank (idx # idxs) cur = Inr res"
    using res by (simp add: is_direct_known [OF known] bind_err_def ranked_def)
  have "\<forall>j. j \<notin> set (idx # idxs) \<longrightarrow> res ! j = cur ! j"
    using out by auto
  moreover have "\<forall>k<length (idx # idxs). res ! ((idx # idxs) ! k) =
      ranked paths tc (rank + k) (cur ! ((idx # idxs) ! k))"
  proof (intro allI impI)
    fix k assume k: "k < length (idx # idxs)"
    show "res ! ((idx # idxs) ! k) = ranked paths tc (rank + k) (cur ! ((idx # idxs) ! k))"
    proof (cases k)
      case 0
      then show ?thesis using out notin idx by simp
    next
      case (Suc k')
      with k have k': "k' < length idxs" by simp
      then have "idxs ! k' \<in> set idxs" by simp
      with inn k' same Suc show ?thesis by simp
    qed
  qed
  ultimately show ?case using step len by simp
qed

lemma group_index_cong:
  assumes "length cur = length df"
    and "\<And>i. i < length df \<Longrightarrow> flight_leg (cur ! i) = flight_leg (df ! i)"
  shows "group_index g cur = group_index g df"
  unfolding group_index_def using assms by (auto intro: filter_cong)

lemma set_leg_order: "set (leg_order paths df g) = set (group_index g df)"
  by (simp add: leg_order_def)

lemma length_leg_order: "length (leg_order paths df g) = length (group_index g df)"
  by (simp add: leg_order_def)

lemma distinct_leg_order: "distinct (leg_order paths df g)"
  by (simp add: leg_order_def distinct_group_index)

lemma leg_order_nth_mem:
  "k < length (group_index g df) \<Longrightarrow> leg_order paths df g ! k \<in> set (group_index g df)"
  by (metis length_leg_order nth_mem set_leg_order)

lemma classify_group_result:
  assumes len: "length cur = length df"
    and legs_eq: "\<And>i. i < length df \<Longrightarrow> flight_leg (cur ! i) = flight_leg (df ! i)"
    and fresh: "\<And>i. i \<in> set (group_index g df) \<Longrightarrow> cur ! i = df ! i"
    and known: "\<And>i. i \<in> set (group_index g df) \<Longrightarrow> known_od paths (od_contributor (df ! i))"
  shows "\<exists>res. classify_group paths g cur = Inr res \<and> length res = length df \<and>
           (\<forall>j. j \<notin> set (group_index g df) \<longrightarrow> res ! j = cur ! j) \<and>
           (\<forall>k<length (group_index g df). res ! (leg_order paths df g ! k) = group_row paths df g k)"
proof -
  let ?idxs = "group_index g df"
  have gi: "group_index g cur = ?idxs" using len legs_eq by (rule group_index_cong)
  show ?thesis
  proof (cases "length ?idxs = 1")
    case True
    then obtain i where i: "?idxs = [i]" by (cases ?idxs) auto
    then have lo: "leg_order paths df g = [i]" by (simp add: leg_order_def)
    have "i \<in> set ?idxs" using i by simp
    then have ilen: "i < length df" and ci: "cur ! i = df ! i"
      using fresh by (auto simp: group_index_iff)
    let ?res = "cur[i := (cur ! i)\<lparr>priority_type := ''Only OD'', fill_priority_rank := Some 1\<rparr>]"
    have "classify_group paths g cur = Inr ?res"
      by (simp add: classify_group_def gi i)
    moreover have "length ?res = length df" using len by simp
    moreover have "\<forall>j. j \<notin> set ?idxs \<longrightarrow> ?res ! j = cur ! j" using i by simp
    moreover have "\<forall>k<length ?idxs. ?res ! (leg_order paths df g ! k) = group_row paths df g k"
      using i lo ilen len ci by (simp add: group_row_def)
    ultimately show ?thesis by blast
  next
    case False
    let ?tc = "Max (set (map (\<lambda>i. od_cm (df ! i)) ?idxs))"
    let ?ds = "map (\<lambda>i. single_leg paths (od_contributor (df ! i))) ?idxs"
    let ?sorted = "leg_order paths df g"
    have mp: "map (\<lambda>i. od_cm (cur ! i)) ?idxs = map (\<lambda>i. od_cm (df ! i)) ?idxs"
      using fresh by (simp cong: map_cong)
    have col: "is_direct_column paths cur ?idxs = Inr ?ds"
    proof -
      have "is_direct_column paths cur ?idxs =
          Inr (map (\<lambda>i. single_leg paths (od_contributor (cur ! i))) ?idxs)"
        by (rule is_direct_column_known) (simp add: fresh known)
      also have "map (\<lambda>i. single_leg paths (od_contributor (cur ! i))) ?idxs = ?ds"
        using fresh by (simp cong: map_cong)
      finally show ?thesis .
    qed
    have srt: "sort_group cur ?idxs ?ds = ?sorted"
      unfolding leg_order_def by (rule sort_group_eq) (rule fresh)
    have cg: "classify_group paths g cur = rank_loop paths ?tc 1 ?sorted cur"
      unfolding classify_group_def Let_def gi mp col
      using False by (simp add: srt bind_err_def)
    have pre: "\<And>i. i \<in> set ?sorted \<Longrightarrow> i < length cur \<and> known_od paths (od_contributor (cur ! i))"
      using fresh known len by (simp add: set_leg_order group_index_iff)
    from rank_loop_result [OF distinct_leg_order pre, of paths df g ?tc 1]
    obtain res where res: "rank_loop paths ?tc 1 ?sorted cur = Inr res"
      and rlen: "length res = length cur"
      and out: "\<forall>j. j \<notin> set ?sorted \<longrightarrow> res ! j = cur ! j"
      and inn: "\<forall>k<length ?sorted. res ! (?sorted ! k) = ranked paths ?tc (1 + k) (cur ! (?sorted ! k))"
      by blast
    have "\<forall>k<length ?idxs. res ! (?sorted ! k) = group_row paths df g k"
    proof (intro allI impI)
      fix k assume k: "k < length ?idxs"
      then have "cur ! (?sorted ! k) = df ! (?sorted ! k)"
        using fresh leg_order_nth_mem by blast
      with inn k False show "res ! (?sorted ! k) = group_row paths df g k"
        by (simp add: group_row_def length_leg_order)
    qed
    with cg res rlen len out show ?thesis by (simp add: set_leg_order)
  qed
qed

lemma flight_leg_group_row:
  "flight_leg (group_row paths df g k) = flight_leg (df ! (leg_order paths df g ! k))"
  by (simp add: group_row_def ranked_def Let_def)

lemma classify_loop_result:
  assumes "distinct ls"
    and "length cur = length df"
    and "\<forall>i<length df. flight_leg (cur ! i) = flight_leg (df ! i)"
    and "\<forall>g\<in>set ls. \<forall>i\<in>set (group_index g df). cur ! i = df ! i"
    and "\<forall>g\<in>set ls. \<forall>i\<in>set (group_index g df). known_od paths (od_contributor (df ! i))"
  shows "\<exists>res. classify_loop paths ls cur = Inr res \<and> length res = length df \<and>
           (\<forall>j<length df. flight_leg (df ! j) \<notin> set ls \<longrightarrow> res ! j = cur ! j) \<and>
           (\<forall>g\<in>set ls. \<forall>k<length (group_index g df).
              res ! (leg_order paths df g ! k) = group_row paths df g k)"
  using assms
proof (induction ls arbitrary: cur)
  case Nil
  then show ?case by simp
next
  case (Cons g ls)
  have d: "distinct ls" and gnot: "g \<notin> set ls" using Cons.prems(1) by auto
  have "\<exists>res. classify_group paths g cur = Inr res \<and> length res = length df \<and>
           (\<forall>j. j \<notin> set (group_index g df) \<longrightarrow> res ! j = cur ! j) \<and>
           (\<forall>k<length (group_index g df). res ! (leg_order paths df g ! k) = group_row paths df g k)"
  proof (rule classify_group_result)
    show "length cur = length df" by (rule Cons.prems(2))
    show "\<And>i. i < length df \<Longrightarrow> flight_leg (cur ! i) = flight_leg (df ! i)"
      using Cons.prems(3) by simp
    show "\<And>i. i \<in> set (group_index g df) \<Longrightarrow> cur ! i = df ! i"
      using Cons.prems(4) by simp
    show "\<And>i. i \<in> set (group_index g df) \<Longrightarrow> known_od paths (od_contributor (df ! i))"
      using Cons.prems(5) by simp
  qed
  then obtain res1 where
    r1: "classify_group paths g cur = Inr res1" and l1: "length res1 = length df"
    and out1: "\<forall>j. j \<notin> set (group_index g df) \<longrightarrow> res1 ! j = cur ! j"
    and in1: "\<forall>k<length (group_index g df). res1 ! (leg_order paths df g ! k) = group_row paths df g k"
    by blast
  have legs1: "\<forall>i<length df. flight_leg (res1 ! i) = flight_leg (df ! i)"
  proof (intro allI impI)
    fix i assume i: "i < length df"
    show "flight_leg (res1 ! i) = flight_leg (df ! i)"
    proof (cases "i \<in> set (group_index g df)")
      case True
      then obtain k where k: "k < length (group_index g df)" and ik: "leg_order paths df g ! k = i"
        by (metis in_set_conv_nth length_leg_order set_leg_order)
      with in1 show ?thesis by (metis flight_leg_group_row)
    next
      case False
      with out1 Cons.prems(3) i show ?thesis by simp
    qed
  qed
  have fresh1: "\<forall>g'\<in>set ls. \<forall>i\<in>set (group_index g' df). res1 ! i = df ! i"
  proof (intro ballI)
    fix g' i assume g': "g' \<in> set ls" and i: "i \<in> set (group_index g' df)"
    from g' gnot have "g' \<noteq> g" by auto
    with i have "i \<notin> set (group_index g df)" by (auto simp: group_index_iff)
    with out1 have "res1 ! i = cur ! i" by simp
    also have "cur ! i = df ! i" using Cons.prems(4) g' i by simp
    finally show "res1 ! i = df ! i" .
  qed
  have known1: "\<forall>g'\<in>set ls. \<forall>i\<in>set (group_index g' df). known_od paths (od_contributor (df ! i))"
    using Cons.prems(5) by simp
  from Cons.IH [OF d l1 legs1 fresh1 known1] obtain res where
    r: "classify_loop paths ls res1 = Inr res" and l: "length res = length df"
    and out: "\<forall>j<length df. flight_leg (df ! j) \<notin> set ls \<longrightarrow> res ! j = res1 ! j"
    and inn: "\<forall>g'\<in>set ls. \<forall>k<length (group_index g' df).
        res ! (leg_order paths df g' ! k) = group_row paths df g' k"
    by blast
  have step: "classify_loop paths (g # ls) cur = Inr res"
    using r1 r by (simp add: bind_err_def)
  have o: "\<forall>j<length df. flight_leg (df ! j) \<notin> set (g # ls) \<longrightarrow> res ! j = cur ! j"
  proof (intro allI impI)
    fix j assume j: "j < length df" and nl: "flight_leg (df ! j) \<notin> set (g # ls)"
    then have "j \<notin> set (group_index g df)" by (auto simp: group_index_iff)
    with out1 out j nl show "res ! j = cur ! j" by simp
  qed
  have i: "\<forall>g'\<in>set (g # ls). \<forall>k<length (group_index g' df).
      res ! (leg_order paths df g' ! k) = group_row paths df g' k"
  proof (intro ballI allI impI)
    fix g' k assume g': "g' \<in> set (g # ls)" and k: "k < length (group_index g' df)"
    show "res ! (leg_order paths df g' ! k) = group_row paths df g' k"
    proof (cases "g' = g")
      case True
      from k True have mem: "leg_order paths df g ! k \<in> set (group_index g df)"
        by (simp add: leg_order_nth_mem)
      then have "leg_order paths df g ! k < length df"
        and "flight_leg (df ! (leg_order paths df g ! k)) = g"
        by (auto simp: group_index_iff)
      with out gnot have "res ! (leg_order paths df g ! k) = res1 ! (leg_order paths df g ! k)"
        by simp
      with in1 k True show ?thesis by simp
    next
      case False
      with g' inn k show ?thesis by simp
    qed
  qed
  from step l o i show ?case by blast
qed

lemma classify_result:
  assumes known: "\<forall>r\<in>set df. known_od paths (od_contributor r)"
  shows "\<exists>res. classify paths df = Inr res \<and> length res = length df \<and>
           (\<forall>g k. k < length (group_index g df) \<longrightarrow>
              res ! (leg_order paths df g ! k) = group_row paths df g k)"
proof -
  let ?ls = "group_keys df"
  have k: "\<forall>g\<in>set ?ls. \<forall>i\<in>set (group_index g df). known_od paths (od_contributor (df ! i))"
    using known by (simp add: group_index_iff)
  have dl: "distinct ?ls" by (simp add: group_keys_def)
  have "\<exists>res. classify_loop paths ?ls df = Inr res \<and>
      length res = length df \<and>
      (\<forall>j<length df. flight_leg (df ! j) \<notin> set ?ls \<longrightarrow> res ! j = df ! j) \<and>
      (\<forall>g\<in>set ?ls. \<forall>k<length (group_index g df).
         res ! (leg_order paths df g ! k) = group_row paths df g k)"
    by (rule classify_loop_result [OF dl _ _ _ k]) simp_all
  then obtain res where r: "classify paths df = Inr res" and l: "length res = length df"
    and inn: "\<forall>g\<in>set ?ls. \<forall>k<length (group_index g df).
        res ! (leg_order paths df g ! k) = group_row paths df g k"
    unfolding classify_def by blast
  have "\<forall>g k. k < length (group_index g df) \<longrightarrow>
      res ! (leg_order paths df g ! k) = group_row paths df g k"
  proof (intro allI impI)
    fix g k assume kk: "k < length (group_index g df)"
    then have "group_index g df ! k \<in> set (group_index g df)" by simp
    then have "g \<in> set (map flight_leg df)"
      unfolding group_index_iff by (metis image_eqI list.set_map nth_mem)
    then have "g \<in> set ?ls" by (simp add: group_keys_def)
    with inn kk show "res ! (leg_order paths df g ! k) = group_row paths df g k" by blast
  qed
  with r l show ?thesis by blast
qed

lemma nth_filter_upt:
  "map ((!) xs) (filter (\<lambda>i. P (xs ! i)) [0..<length xs]) = filter P xs"
proof -
  have "filter P (map ((!) xs) [0..<length xs]) =
        map ((!) xs) (filter (P \<circ> (!) xs) [0..<length xs])"
    by (rule filter_map)
  then show ?thesis by (simp add: map_nth o_def)
qed

lemma leg_contributors_nth: "leg_contributors g df = map ((!) df) (group_index g df)"
  unfolding leg_contributors_def group_index_def by (rule nth_filter_upt [symmetric])

lemma label_of_cross:
  "label_of h d = (case (h, d) of
             (True, True) \<Rightarrow> ''Highest CM - Direct''
           | (True, False) \<Rightarrow> ''Highest CM - Indirect''
           | (False, True) \<Rightarrow> ''Direct - Lower CM''
           | (False, False) \<Rightarrow> ''Indirect - Lower CM'')"
  by (cases h; cases d) (simp_all add: label_of_def)

lemma row_position:
  assumes "j < length df"
  shows "\<exists>k<length (group_index (flight_leg (df ! j)) df).
           leg_order paths df (flight_leg (df ! j)) ! k = j"
proof -
  have "j \<in> set (leg_order paths df (flight_leg (df ! j)))"
    using assms by (simp add: set_leg_order group_index_iff)
  then show ?thesis by (metis in_set_conv_nth length_leg_order)
qed

lemma priority_type_group_row:
  assumes "k < length (group_index g df)" and "flight_leg (df ! (leg_order paths df g ! k)) = g"
  shows "priority_type (group_row paths df g k) =
         reference_label paths df (df ! (leg_order paths df g ! k))"
proof -
  have "map od_cm (leg_contributors g df) = map (\<lambda>i. od_cm (df ! i)) (group_index g df)"
    by (simp add: leg_contributors_nth)
  moreover have "length (leg_contributors g df) = length (group_index g df)"
    by (simp add: leg_contributors_nth)
  ultimately show ?thesis
    using assms(2)
    by (simp add: group_row_def reference_label_def Let_def ranked_def label_of_cross)
qed

lemma rank_group_row: "fill_priority_rank (group_row paths df g k) =
    Some (if length (group_index g df) = 1 then 1 else k + 1)"
  by (simp add: group_row_def ranked_def Let_def)

lemma sorted_leg_order:
  "sorted (map (\<lambda>i. rank_key paths (df ! i)) (leg_order paths df g))"
  by (simp add: leg_order_def)

lemma not_precedes_if_key_le:
  "rank_key paths a \<le> rank_key paths b \<Longrightarrow> \<not> precedes paths b a"
  by (auto simp: rank_key_def precedes_def less_eq_prod_def)

section \<open>The OD summary and the totals\<close>

lemma recover_key: "text_key_ok k \<Longrightarrow> Str (recover (var_name ns k)) = k"
  by (cases k) (simp_all add: text_key_ok_def recover_var_name_text)

lemma variables_sorted: "variables ns paths = map (var_of ns) (sorted_paths ns paths)"
proof -
  have "sort_key fst (map (var_of ns) paths) = map (var_of ns) (sort_key (\<lambda>y. fst (var_of ns y)) paths)"
    by (rule sort_key_map)
  then show ?thesis
    by (simp add: variables_def sorted_paths_def var_of_def [abs_def])
qed

lemma set_sorted_paths: "set (sorted_paths ns paths) = set paths"
  by (simp add: sorted_paths_def)

lemma summary_loop_rows:
  assumes ok: "keys_ok paths" and d: "distinct (map fst paths)"
    and sub: "set ps \<subseteq> set paths"
    and vals: "\<forall>kp\<in>set ps. varValue sol (fst kp) = Some (x (fst kp))"
  shows "summary_loop paths sol (map (var_of ns) ps) =
         Inr (map (summary_row ns x) (filter (\<lambda>kp. 0 < x (fst kp)) ps))"
  using sub vals
proof (induction ps)
  case Nil
  then show ?case by simp
next
  case (Cons kp ps)
  have mem: "kp \<in> set paths" using Cons.prems(1) by simp
  then have "text_key_ok (fst kp)" using ok by (simp add: keys_ok_def list_all_iff)
  then have rec: "Str (recover (var_name ns (fst kp))) = fst kp" by (rule recover_key)
  have look: "map_of paths (fst kp) = Some (snd kp)"
    using d mem by (simp add: map_of_is_SomeI [of paths "fst kp" "snd kp"])
  have v: "varValue sol (fst kp) = Some (x (fst kp))" using Cons.prems(2) by simp
  have ih: "summary_loop paths sol (map (var_of ns) ps) =
      Inr (map (summary_row ns x) (filter (\<lambda>kp. 0 < x (fst kp)) ps))"
    using Cons by simp
  have head: "summary_loop paths sol (var_of ns kp # map (var_of ns) ps) =
      (if 0 < x (fst kp)
       then bind_err (summary_loop paths sol (map (var_of ns) ps))
              (\<lambda>rows. Inr (summary_row ns x kp # rows))
       else summary_loop paths sol (map (var_of ns) ps))"
    by (simp add: var_of_def v rec look summary_row_def)
  show ?case
    by (simp add: head ih bind_err_def del: summary_loop.simps)
qed







lemma objective_value_some:
  "\<forall>kp\<in>set ps. varValue sol (fst kp) = Some (x (fst kp)) \<Longrightarrow>
   objective_value ps sol = Some (objective ps x)"
  by (induction ps) (simp_all add: objective_def)


lemma sum_list_insort_key:
  "sum_list (map f (insort_key g x xs)) = f x + sum_list (map f (xs::'a list))"
  for f :: "'a \<Rightarrow> real"
  by (induction xs) auto

lemma sum_list_sort_key:
  "sum_list (map f (sort_key g xs)) = sum_list (map f xs)"
  for f :: "'a \<Rightarrow> real"
  by (induction xs) (simp_all add: sum_list_insort_key)

lemma sum_list_filter_split:
  "sum_list (map f xs) = sum_list (map f (filter P xs)) + sum_list (map f (filter (\<lambda>x. \<not> P x) xs))"
  for f :: "'a \<Rightarrow> real"
  by (induction xs) auto

lemma sum_list_zero:
  "(\<And>y. y \<in> set ys \<Longrightarrow> f y = 0) \<Longrightarrow> sum_list (map f ys) = (0::real)"
  by (induction ys) auto

lemma round_half_even_error: "\<bar>of_int (round_half_even y) - y\<bar> \<le> 1 / 2"
proof -
  have "of_int \<lfloor>y\<rfloor> \<le> y" and "y < of_int \<lfloor>y\<rfloor> + 1" by linarith+
  then show ?thesis
    by (auto simp: round_half_even_def Let_def abs_le_iff)
qed

lemma round2_error: "\<bar>round2 x - x\<bar> \<le> 1 / 200"
proof -
  have "\<bar>of_int (round_half_even (x * 100)) - x * 100\<bar> \<le> 1 / 2"
    by (rule round_half_even_error)
  then show ?thesis by (simp add: round2_def abs_le_iff field_simps)
qed

lemma sum_round2_error:
  "\<bar>sum_list (map (\<lambda>y. round2 (f y)) ys) - sum_list (map f ys)\<bar> \<le> real (length ys) / 200"
proof (induction ys)
  case Nil
  then show ?case by simp
next
  case (Cons y ys)
  let ?S = "sum_list (map (\<lambda>y. round2 (f y)) ys)" and ?T = "sum_list (map f ys)"
  have e: "\<bar>round2 (f y) - f y\<bar> \<le> 1 / 200" by (rule round2_error)
  have "\<bar>(round2 (f y) + ?S) - (f y + ?T)\<bar> \<le> \<bar>round2 (f y) - f y\<bar> + \<bar>?S - ?T\<bar>"
    by linarith
  with e Cons have "\<bar>(round2 (f y) + ?S) - (f y + ?T)\<bar> \<le> 1 / 200 + real (length ys) / 200"
    by linarith
  then show ?case by (simp add: add_divide_distrib)
qed

lemma post_solve_Inr:
  assumes "post_solve ns paths sol = Inr rep"
  shows "\<exists>summary records df t.
           summary_loop paths sol (variables ns paths) = Inr summary \<and>
           leg_records paths summary = Inr records \<and> records \<noteq> [] \<and>
           classify paths records = Inr df \<and> objective_value paths sol = Some t \<and>
           rep = \<lparr>od_summary = summary, leg_detail = df, leg_summary = leg_summary_of df,
                  network_profit = round2 t\<rparr>"
  using assms unfolding post_solve_def bind_err_def
  by (auto split: sum.splits if_splits option.splits)










section \<open>The worked example, evaluated\<close>

lemma example_build:
  "build (\<lambda>s. None) example_direct example_indirect =
     \<lparr>all_od_paths = example_paths,
      leg_capacities = [(Str ''A-B'', 100), (Str ''B-C'', 50), (Str ''B-D'', 50)]\<rparr>"
  by code_simp

lemma example_post_solve:
  "post_solve (\<lambda>r. []) example_paths example_solution = Inr example_report"
  by code_simp

lemma example_classify:
  "classify example_paths example_table = Inr (leg_detail example_report)"
  by code_simp

lemma example_known: "\<forall>r\<in>set example_table. known_od example_paths (od_contributor r)"
  by code_simp

lemma example_keys_ok: "keys_ok example_paths"
  by code_simp

lemma example_feasible:
  "lp_feasible (build (\<lambda>s. None) example_direct example_indirect) example_values"
  by code_simp

text \<open>The allocation of the example is an optimum of the model built from its sheets.\<close>

lemma example_optimal:
  assumes "lp_feasible (build (\<lambda>s. None) example_direct example_indirect) x"
  shows "objective example_paths x \<le> objective example_paths example_values"
proof -
  let ?a = "x (Str ''A-B'')" and ?b = "x (Str ''A-C'')" and ?c = "x (Str ''A-D'')"
  from assms have "?a + ?b + ?c \<le> 100" and "?b \<le> 30" and "?c \<le> 30"
    unfolding example_build by (simp_all add: lp_feasible_def example_paths_def leg_load_def)
  moreover have "objective example_paths x = 10 * ?a + 20 * ?b + 20 * ?c"
    by (simp add: objective_def example_paths_def)
  moreover have "objective example_paths example_values = 1600"
    by (simp add: objective_def example_paths_def example_values_def)
  ultimately show ?thesis by linarith
qed

text \<open>
  Scenario B of the specification: the leg A-B of capacity 50 shared by the direct market
  A-B (CM 10) and the indirect market A-C (CM 20, ceiling 30), with the tonnages 20 and 30.
\<close>

lemma scenario_b:
  "run (\<lambda>s. None) (\<lambda>r. [])
     [direct_row (RStr ''A-B'') (RNum 10) (RNum 60) (RNum 50)]
     [indirect_row (RStr ''A-C'') (RNum 20) (RNum 30) (RStr ''A-B'') (RStr ''B-C'') (RNum 50) (RNum 50)]
     \<lparr>status = Optimal, varValue = (\<lambda>k. if k = Str ''A-C'' then Some 30 else Some 20)\<rparr> =
   Inr \<lparr>od_summary =
          [\<lparr>od_pair = ''A-B'', cargo_tonnage = 20, cm_per_ton = 10, total_profit = 200\<rparr>,
           \<lparr>od_pair = ''A-C'', cargo_tonnage = 30, cm_per_ton = 20, total_profit = 600\<rparr>],
        leg_detail =
          [\<lparr>flight_leg = Str ''A-B'', od_contributor = ''A-B'', od_cm = 10, leg_tonnage = 20,
            profit_on_leg = 200, priority_type = ''Direct - Lower CM'',
            fill_priority_rank = Some 2\<rparr>,
           \<lparr>flight_leg = Str ''A-B'', od_contributor = ''A-C'', od_cm = 20, leg_tonnage = 30,
            profit_on_leg = 600, priority_type = ''Highest CM - Indirect'',
            fill_priority_rank = Some 1\<rparr>,
           \<lparr>flight_leg = Str ''B-C'', od_contributor = ''A-C'', od_cm = 20, leg_tonnage = 30,
            profit_on_leg = 600, priority_type = ''Only OD'', fill_priority_rank = Some 1\<rparr>],
        leg_summary = [(Str ''A-B'', 50), (Str ''B-C'', 30)],
        network_profit = 800\<rparr>"
  by code_simp

text \<open>
  When every variable is left at 0 the OD summary is empty, the leg table has no column,
  and the run ends in \<open>KeyError\<close>.
\<close>

lemma all_zero_values_error:
  "post_solve ns paths \<lparr>status = st, varValue = (\<lambda>k. Some 0)\<rparr> = Inl KeyError"
proof -
  have "summary_loop paths \<lparr>status = st, varValue = (\<lambda>k. Some 0)\<rparr> vs = Inr []" for vs
    by (induction vs) simp_all
  then show ?thesis by (simp add: post_solve_def bind_err_def)
qed

section \<open>The claims about the solve step and the report\<close>

subsection \<open>Claim C3: an infeasible model\<close>




subsection \<open>Claim C5: fill-priority ranks\<close>

text \<open>
  Claim C5, as amended. When every contributor is known to the registry, the
  classification succeeds, and for every leg there is an order of its contributors,
  each once, in which the assigned ranks are the positions 1, 2, ..., n; no contributor
  comes after one it strictly precedes by the rule (CM descending, direct before
  indirect among equal CM); and the first one has the largest CM of the leg.
  Contributors equal in CM and in directness are not ordered by the rule.
\<close>

theorem ranks_are_positions:
  assumes "\<forall>r\<in>set df. known_od paths (od_contributor r)"
  shows "\<exists>res. classify paths df = Inr res \<and>
           (\<forall>g. \<exists>order. distinct order \<and> set order = set (group_index g df) \<and>
              (\<forall>k<length order. fill_priority_rank (res ! (order ! k)) = Some (k + 1)) \<and>
              (\<forall>k l. k < l \<and> l < length order \<longrightarrow>
                 \<not> precedes paths (df ! (order ! l)) (df ! (order ! k))) \<and>
              (\<forall>k<length order. od_cm (df ! (order ! k)) \<le> od_cm (df ! (order ! 0))))"
proof -
  from classify_result [OF assms] obtain res where
    r: "classify paths df = Inr res" and l: "length res = length df"
    and rows: "\<forall>g k. k < length (group_index g df) \<longrightarrow>
        res ! (leg_order paths df g ! k) = group_row paths df g k"
    by blast
  have "\<forall>g. \<exists>order. distinct order \<and> set order = set (group_index g df) \<and>
      (\<forall>k<length order. fill_priority_rank (res ! (order ! k)) = Some (k + 1)) \<and>
      (\<forall>k l. k < l \<and> l < length order \<longrightarrow>
         \<not> precedes paths (df ! (order ! l)) (df ! (order ! k))) \<and>
      (\<forall>k<length order. od_cm (df ! (order ! k)) \<le> od_cm (df ! (order ! 0)))"
  proof
    fix g
    let ?o = "leg_order paths df g"
    have srt: "\<And>k l. k \<le> l \<Longrightarrow> l < length ?o \<Longrightarrow>
        rank_key paths (df ! (?o ! k)) \<le> rank_key paths (df ! (?o ! l))"
      using sorted_leg_order [of paths df g] by (simp add: sorted_iff_nth_mono)
    have 1: "\<forall>k<length ?o. fill_priority_rank (res ! (?o ! k)) = Some (k + 1)"
    proof (intro allI impI)
      fix k assume k: "k < length ?o"
      with rows have "res ! (?o ! k) = group_row paths df g k" by (simp add: length_leg_order)
      with k show "fill_priority_rank (res ! (?o ! k)) = Some (k + 1)"
        by (auto simp: rank_group_row length_leg_order)
    qed
    have 2: "\<forall>k l. k < l \<and> l < length ?o \<longrightarrow> \<not> precedes paths (df ! (?o ! l)) (df ! (?o ! k))"
      using srt by (auto intro!: not_precedes_if_key_le)
    have 3: "\<forall>k<length ?o. od_cm (df ! (?o ! k)) \<le> od_cm (df ! (?o ! 0))"
    proof (intro allI impI)
      fix k assume "k < length ?o"
      then have "rank_key paths (df ! (?o ! 0)) \<le> rank_key paths (df ! (?o ! k))"
        by (intro srt) simp_all
      then show "od_cm (df ! (?o ! k)) \<le> od_cm (df ! (?o ! 0))"
        by (auto simp: rank_key_def less_eq_prod_def)
    qed
    from distinct_leg_order set_leg_order 1 2 3
    show "\<exists>order. distinct order \<and> set order = set (group_index g df) \<and>
      (\<forall>k<length order. fill_priority_rank (res ! (order ! k)) = Some (k + 1)) \<and>
      (\<forall>k l. k < l \<and> l < length order \<longrightarrow>
         \<not> precedes paths (df ! (order ! l)) (df ! (order ! k))) \<and>
      (\<forall>k<length order. od_cm (df ! (order ! k)) \<le> od_cm (df ! (order ! 0)))"
      by blast
  qed
  with r show ?thesis by blast
qed

theorem ranks_are_positions_witness:
  "list_all (\<lambda>r. known_od example_paths (od_contributor r)) example_table \<and>
   (\<exists>res order. classify example_paths example_table = Inr res \<and>
      distinct order \<and> set order = {0, 1, 3} \<and>
      fill_priority_rank (res ! (order ! 0)) = Some 1 \<and>
      fill_priority_rank (res ! (order ! 1)) = Some 2 \<and>
      fill_priority_rank (res ! (order ! 2)) = Some 3 \<and>
      od_cm (example_table ! (order ! 0)) = 20)"
proof -
  have k: "\<forall>r\<in>set example_table. known_od example_paths (od_contributor r)"
    by (rule example_known)
  have g: "set (group_index (Str ''A-B'') example_table) = {0, 1, 3}"
    by code_simp
  from ranks_are_positions [OF k] obtain res where
    r: "classify example_paths example_table = Inr res"
    and all: "\<forall>g. \<exists>order. distinct order \<and> set order = set (group_index g example_table) \<and>
              (\<forall>k<length order. fill_priority_rank (res ! (order ! k)) = Some (k + 1)) \<and>
              (\<forall>k l. k < l \<and> l < length order \<longrightarrow>
                 \<not> precedes example_paths (example_table ! (order ! l)) (example_table ! (order ! k))) \<and>
              (\<forall>k<length order. od_cm (example_table ! (order ! k)) \<le> od_cm (example_table ! (order ! 0)))"
    by blast
  from all g obtain order where d: "distinct order" and s: "set order = {0, 1, 3}"
    and ranks: "\<forall>k<length order. fill_priority_rank (res ! (order ! k)) = Some (k + 1)"
    and top: "\<forall>k<length order. od_cm (example_table ! (order ! k)) \<le> od_cm (example_table ! (order ! 0))"
    by metis
  from d s have len: "length order = 3"
    using distinct_card [of order] by simp
  have cms: "od_cm (example_table ! 0) = 10 \<and> od_cm (example_table ! 1) = 20 \<and>
      od_cm (example_table ! 3) = 20" by (simp add: example_table_def)
  have "order ! 0 \<in> {0, 1, 3}" using s len by (metis nth_mem zero_less_numeral)
  moreover have "1 \<in> set order" using s by simp
  then obtain j where "j < length order" and "order ! j = 1" by (metis in_set_conv_nth)
  with top cms have "20 \<le> od_cm (example_table ! (order ! 0))" by metis
  ultimately have first: "od_cm (example_table ! (order ! 0)) = 20" using cms by auto
  from ranks len have "fill_priority_rank (res ! (order ! 0)) = Some 1"
    and "fill_priority_rank (res ! (order ! 1)) = Some 2"
    and "fill_priority_rank (res ! (order ! 2)) = Some 3" by simp_all
  with k r d s first show ?thesis by (auto simp: list_all_iff)
qed

text \<open>
  Claim C5 as stated fails: the rule is no strict total order. In the example the
  indirect markets A-C and A-D share the leg A-B with the same CM; neither precedes the
  other by the rule, and they get the ranks 1 and 2.
\<close>

theorem tied_contributors_counterexample:
  "\<not> strictly_ordered example_paths (leg_contributors (Str ''A-B'') example_table) \<and>
   \<not> precedes example_paths (example_table ! 1) (example_table ! 3) \<and>
   \<not> precedes example_paths (example_table ! 3) (example_table ! 1) \<and>
   classify example_paths example_table = Inr (leg_detail example_report) \<and>
   map fill_priority_rank (leg_detail example_report) = [Some 3, Some 1, Some 1, Some 2, Some 1]"
  by code_simp

subsection \<open>Claim C7: priority labels\<close>

text \<open>
  Claim C7. When every contributor is known to the registry, the classification
  succeeds and the label of every row is the one of the reference rule: \<open>Only OD\<close>
  with rank 1 for the sole contributor of a leg, and otherwise the crossing of "CM equal
  to the top CM of the leg" with "direct". Nothing else of a row changes.
\<close>

theorem labels_follow_reference_rule:
  assumes "\<forall>r\<in>set df. known_od paths (od_contributor r)"
  shows "\<exists>res. classify paths df = Inr res \<and> length res = length df \<and>
           (\<forall>j<length df.
              priority_type (res ! j) = reference_label paths df (df ! j) \<and>
              (length (leg_contributors (flight_leg (df ! j)) df) = 1 \<longrightarrow>
                 fill_priority_rank (res ! j) = Some 1) \<and>
              res ! j = (df ! j)\<lparr>priority_type := priority_type (res ! j),
                                  fill_priority_rank := fill_priority_rank (res ! j)\<rparr>)"
proof -
  from classify_result [OF assms] obtain res where
    r: "classify paths df = Inr res" and l: "length res = length df"
    and rows: "\<forall>g k. k < length (group_index g df) \<longrightarrow>
        res ! (leg_order paths df g ! k) = group_row paths df g k"
    by blast
  have "\<forall>j<length df.
      priority_type (res ! j) = reference_label paths df (df ! j) \<and>
      (length (leg_contributors (flight_leg (df ! j)) df) = 1 \<longrightarrow>
         fill_priority_rank (res ! j) = Some 1) \<and>
      res ! j = (df ! j)\<lparr>priority_type := priority_type (res ! j),
                          fill_priority_rank := fill_priority_rank (res ! j)\<rparr>"
  proof (intro allI impI)
    fix j assume j: "j < length df"
    let ?g = "flight_leg (df ! j)"
    from row_position [OF j, of paths] obtain k where
      k: "k < length (group_index ?g df)" and jk: "leg_order paths df ?g ! k = j" by blast
    from rows k jk have rj: "res ! j = group_row paths df ?g k" by metis
    have a: "priority_type (res ! j) = reference_label paths df (df ! j)"
      using priority_type_group_row [OF k, of paths] jk rj by simp
    have b: "length (leg_contributors ?g df) = 1 \<longrightarrow> fill_priority_rank (res ! j) = Some 1"
      using rj by (simp add: group_row_def leg_contributors_nth)
    have c: "res ! j = (df ! j)\<lparr>priority_type := priority_type (res ! j),
                          fill_priority_rank := fill_priority_rank (res ! j)\<rparr>"
      unfolding rj using jk by (simp add: group_row_def ranked_def Let_def)
    from a b c show "priority_type (res ! j) = reference_label paths df (df ! j) \<and>
      (length (leg_contributors (flight_leg (df ! j)) df) = 1 \<longrightarrow>
         fill_priority_rank (res ! j) = Some 1) \<and>
      res ! j = (df ! j)\<lparr>priority_type := priority_type (res ! j),
                          fill_priority_rank := fill_priority_rank (res ! j)\<rparr>" by blast
  qed
  with r l show ?thesis by blast
qed

theorem labels_follow_reference_rule_witness:
  "list_all (\<lambda>r. known_od example_paths (od_contributor r)) example_table \<and>
   (\<exists>res. classify example_paths example_table = Inr res \<and>
      map priority_type res =
        [''Direct - Lower CM'', ''Highest CM - Indirect'', ''Only OD'',
         ''Highest CM - Indirect'', ''Only OD''] \<and>
      fill_priority_rank (res ! 2) = Some 1)"
proof -
  have k: "\<forall>r\<in>set example_table. known_od example_paths (od_contributor r)"
    by (rule example_known)
  have len: "length example_table = 5" by (simp add: example_table_def)
  from labels_follow_reference_rule [OF k] obtain res where
    r: "classify example_paths example_table = Inr res" and l: "length res = 5"
    and rows: "\<forall>j<5. priority_type (res ! j) =
        reference_label example_paths example_table (example_table ! j) \<and>
        (length (leg_contributors (flight_leg (example_table ! j)) example_table) = 1 \<longrightarrow>
           fill_priority_rank (res ! j) = Some 1)"
    unfolding len by blast
  have "map (\<lambda>j. reference_label example_paths example_table (example_table ! j)) [0, 1, 2, 3, 4] =
      [''Direct - Lower CM'', ''Highest CM - Indirect'', ''Only OD'',
       ''Highest CM - Indirect'', ''Only OD'']"
    by code_simp
  moreover have "map priority_type res = map (\<lambda>j. priority_type (res ! j)) [0, 1, 2, 3, 4]"
    using l by (intro nth_equalityI) (auto simp: nth_Cons' less_Suc_eq numeral_eq_Suc)
  moreover have "map (\<lambda>j. priority_type (res ! j)) [0, 1, 2, 3, 4] =
      map (\<lambda>j. reference_label example_paths example_table (example_table ! j)) [0, 1, 2, 3, 4]"
    using rows by simp
  ultimately have labels: "map priority_type res =
      [''Direct - Lower CM'', ''Highest CM - Indirect'', ''Only OD'',
       ''Highest CM - Indirect'', ''Only OD'']" by simp
  have "length (leg_contributors (flight_leg (example_table ! 2)) example_table) = 1"
    by code_simp
  with rows have "fill_priority_rank (res ! 2) = Some 1" by simp
  with k r labels show ?thesis by (auto simp: list_all_iff)
qed

subsection \<open>Claim C8: the total profit and the per-path profits\<close>

text \<open>
  Claim C8, as amended. When the keys come back from the variable names and no variable
  is negative, the total profit (line 122) is the sum over all paths of tonnage times CM,
  and the report shows it rounded to two decimals. Each per-path profit of the OD
  summary is tonnage times CM rounded to two decimals, so their sum differs from the
  total by at most 0.005 per row of the summary.
\<close>

theorem profit_totals:
  assumes ok: "keys_ok paths" and d: "distinct (map fst paths)"
    and vals: "list_all (\<lambda>kp. varValue sol (fst kp) = Some (x (fst kp)) \<and> 0 \<le> x (fst kp)) paths"
    and run: "post_solve ns paths sol = Inr rep"
  shows "objective_value paths sol = Some (objective paths x) \<and>
         network_profit rep = round2 (objective paths x) \<and>
         \<bar>objective paths x - sum_list (map total_profit (od_summary rep))\<bar>
           \<le> real (length (od_summary rep)) / 200"
proof -
  let ?sp = "sorted_paths ns paths"
  let ?pos = "\<lambda>kp. 0 < x (fst kp)"
  let ?gain = "\<lambda>kp. x (fst kp) * cm (snd kp)"
  have v: "\<forall>kp\<in>set paths. varValue sol (fst kp) = Some (x (fst kp))"
    and nn: "\<forall>kp\<in>set paths. 0 \<le> x (fst kp)"
    using vals by (auto simp: list_all_iff)
  have obj: "objective_value paths sol = Some (objective paths x)"
    using v by (rule objective_value_some)
  from post_solve_Inr [OF run] obtain summary t where
    s: "summary_loop paths sol (variables ns paths) = Inr summary"
    and t: "objective_value paths sol = Some t"
    and rep: "od_summary rep = summary" "network_profit rep = round2 t"
    by auto
  have vsp: "\<forall>kp\<in>set ?sp. varValue sol (fst kp) = Some (x (fst kp))"
    using v by (simp add: set_sorted_paths)
  have "summary_loop paths sol (map (var_of ns) ?sp) =
      Inr (map (summary_row ns x) (filter ?pos ?sp))"
    by (rule summary_loop_rows [OF ok d _ vsp]) (simp add: set_sorted_paths)
  with s have summary: "summary = map (summary_row ns x) (filter ?pos ?sp)"
    by (simp add: variables_sorted)
  have profits: "sum_list (map total_profit summary) =
      sum_list (map (\<lambda>kp. round2 (?gain kp)) (filter ?pos ?sp))"
    by (simp add: summary summary_row_def o_def)
  have zero: "sum_list (map ?gain (filter (\<lambda>kp. \<not> ?pos kp) ?sp)) = 0"
  proof (rule sum_list_zero)
    fix kp assume "kp \<in> set (filter (\<lambda>kp. \<not> ?pos kp) ?sp)"
    then have "kp \<in> set paths" and "\<not> 0 < x (fst kp)" by (simp_all add: set_sorted_paths)
    with nn have "x (fst kp) = 0" by fastforce
    then show "?gain kp = 0" by simp
  qed
  have "objective paths x = sum_list (map ?gain ?sp)"
    by (simp add: objective_def sorted_paths_def sum_list_sort_key)
  also have "\<dots> = sum_list (map ?gain (filter ?pos ?sp)) +
      sum_list (map ?gain (filter (\<lambda>kp. \<not> ?pos kp) ?sp))"
    by (rule sum_list_filter_split)
  finally have total: "objective paths x = sum_list (map ?gain (filter ?pos ?sp))"
    using zero by simp
  have "\<bar>sum_list (map (\<lambda>kp. round2 (?gain kp)) (filter ?pos ?sp)) -
        sum_list (map ?gain (filter ?pos ?sp))\<bar> \<le> real (length (filter ?pos ?sp)) / 200"
    by (rule sum_round2_error)
  then have "\<bar>sum_list (map total_profit summary) - objective paths x\<bar>
      \<le> real (length (filter ?pos ?sp)) / 200"
    unfolding profits total .
  moreover have "length summary = length (filter ?pos ?sp)"
    unfolding summary by simp
  ultimately have "\<bar>objective paths x - sum_list (map total_profit summary)\<bar>
      \<le> real (length summary) / 200"
    by (simp only: abs_minus_commute)
  with obj t rep show ?thesis by simp
qed

theorem profit_totals_witness:
  "keys_ok example_paths \<and> distinct (map fst example_paths) \<and>
   list_all (\<lambda>kp. varValue example_solution (fst kp) = Some (example_values (fst kp)) \<and>
                  0 \<le> example_values (fst kp)) example_paths \<and>
   post_solve (\<lambda>r. []) example_paths example_solution = Inr example_report \<and>
   objective example_paths example_values = 1600 \<and>
   objective_value example_paths example_solution = Some 1600 \<and>
   network_profit example_report = round2 1600 \<and>
   \<bar>1600 - sum_list (map total_profit (od_summary example_report))\<bar>
     \<le> real (length (od_summary example_report)) / 200"
proof -
  have a: "keys_ok example_paths" and b: "distinct (map fst example_paths)"
    and c: "list_all (\<lambda>kp. varValue example_solution (fst kp) = Some (example_values (fst kp)) \<and>
                  0 \<le> example_values (fst kp)) example_paths"
    by code_simp+
  have o: "objective example_paths example_values = 1600" by code_simp
  from profit_totals [OF a b c example_post_solve] a b c o example_post_solve
  show ?thesis by simp
qed

text \<open>
  Claim C8 as stated fails: with the tonnages 0.004 and 0.003 at CM 1 the total
  profit is 0.007, shown as 0.01, and the two per-path profits are both shown as 0.
\<close>

theorem rounded_profits_counterexample:
  "objective
     (all_od_paths (build (\<lambda>s. None)
        [direct_row (RStr ''A-B'') (RNum 1) (RNum (4 / 1000)) (RNum 10),
         direct_row (RStr ''C-D'') (RNum 1) (RNum (3 / 1000)) (RNum 10)] []))
     (\<lambda>k. if k = Str ''A-B'' then 4 / 1000 else 3 / 1000) = 7 / 1000 \<and>
   run (\<lambda>s. None) (\<lambda>r. [])
     [direct_row (RStr ''A-B'') (RNum 1) (RNum (4 / 1000)) (RNum 10),
      direct_row (RStr ''C-D'') (RNum 1) (RNum (3 / 1000)) (RNum 10)] []
     \<lparr>status = Optimal,
      varValue = (\<lambda>k. if k = Str ''A-B'' then Some (4 / 1000) else Some (3 / 1000))\<rparr> =
     Inr \<lparr>od_summary =
            [\<lparr>od_pair = ''A-B'', cargo_tonnage = 0, cm_per_ton = 1, total_profit = 0\<rparr>,
             \<lparr>od_pair = ''C-D'', cargo_tonnage = 0, cm_per_ton = 1, total_profit = 0\<rparr>],
          leg_detail =
            [\<lparr>flight_leg = Str ''A-B'', od_contributor = ''A-B'', od_cm = 1, leg_tonnage = 0,
              profit_on_leg = 0, priority_type = ''Only OD'', fill_priority_rank = Some 1\<rparr>,
             \<lparr>flight_leg = Str ''C-D'', od_contributor = ''C-D'', od_cm = 1, leg_tonnage = 0,
              profit_on_leg = 0, priority_type = ''Only OD'', fill_priority_rank = Some 1\<rparr>],
          leg_summary = [(Str ''A-B'', 0), (Str ''C-D'', 0)],
          network_profit = 1 / 100\<rparr>"
  by code_simp

subsection \<open>Claim C9: the keys recovered from the variable names\<close>




end
